theory Spec2Isabelle
  imports Main
begin

section \<open>JavaScript strings\<close>

text \<open>
  Strings are lists of 8-bit code units (\<open>string\<close>). The character classes are the
  ECMAScript ones restricted to that range: \<^verbatim>\<open>\d\<close> is the ten ASCII digits, \<^verbatim>\<open>\s\<close> and
  \<^verbatim>\<open>trim\<close> use white space and line terminators (TAB, LF, VT, FF, CR, SP, NBSP), and the
  dot of a regular expression is every character but LF and CR.
\<close>

definition LF :: char where "LF = CHR 0x0A"
definition CR :: char where "CR = CHR 0x0D"
definition BSL :: char where "BSL = CHR 0x5C"

definition is_digit :: "char \<Rightarrow> bool" where
  "is_digit c \<longleftrightarrow> c \<in> set ''0123456789''"

definition is_space :: "char \<Rightarrow> bool" where
  "is_space c \<longleftrightarrow>
     c \<in> {CHR 0x09, CHR 0x0A, CHR 0x0B, CHR 0x0C, CHR 0x0D, CHR 0x20, CHR 0xA0}"

definition is_dot :: "char \<Rightarrow> bool" where
  "is_dot c \<longleftrightarrow> c \<noteq> LF \<and> c \<noteq> CR"

definition trim :: "string \<Rightarrow> string" where
  "trim s = rev (dropWhile is_space (rev (dropWhile is_space s)))"

definition startsWith :: "string \<Rightarrow> string \<Rightarrow> bool" where
  "startsWith s p \<longleftrightarrow> take (length p) s = p"

definition endsWith :: "string \<Rightarrow> string \<Rightarrow> bool" where
  "endsWith s p \<longleftrightarrow> length p \<le> length s \<and> drop (length s - length p) s = p"

fun includes_str :: "string \<Rightarrow> string \<Rightarrow> bool" where
  "includes_str [] p \<longleftrightarrow> p = []"
| "includes_str (c # cs) p \<longleftrightarrow> startsWith (c # cs) p \<or> includes_str cs p"

text \<open>\<^verbatim>\<open>s.split(c)\<close> for a one-character separator; the empty string gives \<^verbatim>\<open>['']\<close>.\<close>

fun split_on :: "char \<Rightarrow> string \<Rightarrow> string list" where
  "split_on c [] = [[]]"
| "split_on c (x # xs) =
     (if x = c then [] # split_on c xs
      else (case split_on c xs of [] \<Rightarrow> [[x]] | p # ps \<Rightarrow> (x # p) # ps))"

fun join :: "string \<Rightarrow> string list \<Rightarrow> string" where
  "join sep [] = []"
| "join sep [x] = x"
| "join sep (x # y # ys) = x @ sep @ join sep (y # ys)"

text \<open>\<^verbatim>\<open>s.replace(a, b)\<close> with a string pattern of one character: the first occurrence only.\<close>

fun replace_first :: "char \<Rightarrow> char \<Rightarrow> string \<Rightarrow> string" where
  "replace_first a b [] = []"
| "replace_first a b (x # xs) = (if x = a then b # xs else x # replace_first a b xs)"

definition padStart :: "nat \<Rightarrow> char \<Rightarrow> string \<Rightarrow> string" where
  "padStart n c s = replicate (n - length s) c @ s"

definition lower_char :: "char \<Rightarrow> char" where
  "lower_char c =
     (let n = (of_char c :: nat) in
      if (65 \<le> n \<and> n \<le> 90) \<or> (192 \<le> n \<and> n \<le> 222 \<and> n \<noteq> 215)
      then char_of (n + 32) else c)"

definition toLowerCase :: "string \<Rightarrow> string" where
  "toLowerCase s = map lower_char s"

text \<open>Arrays: \<^verbatim>\<open>xs[i]\<close> is \<^verbatim>\<open>undefined\<close> (\<open>None\<close>) out of range; \<^verbatim>\<open>indexOf\<close> gives -1 when
  the element is absent.\<close>

definition js_index :: "'a list \<Rightarrow> int \<Rightarrow> 'a option" where
  "js_index xs i = (if 0 \<le> i \<and> i < int (length xs) then Some (xs ! nat i) else None)"

fun indexOf :: "'a list \<Rightarrow> 'a \<Rightarrow> int" where
  "indexOf [] x = - 1"
| "indexOf (y # ys) x =
     (if y = x then 0 else (let i = indexOf ys x in if i < 0 then - 1 else i + 1))"

subsection \<open>Numbers and strings\<close>

definition digit_char :: "nat \<Rightarrow> char" where
  "digit_char n = ''0123456789'' ! n"

fun string_of_nat :: "nat \<Rightarrow> string" where
  "string_of_nat n =
     (if n < 10 then [digit_char n] else string_of_nat (n div 10) @ [digit_char (n mod 10)])"

declare string_of_nat.simps [simp del]

definition digit_val :: "char \<Rightarrow> nat" where
  "digit_val c = of_char c - 48"

definition digits_val :: "string \<Rightarrow> int" where
  "digits_val ds = foldl (\<lambda>n c. 10 * n + int (digit_val c)) 0 ds"

text \<open>
  The numbers that the program reads and counts are doubles with an integer value, or an
  infinity; \<^verbatim>\<open>NaN\<close> is the \<open>None\<close> of an option, and \<^verbatim>\<open>-0\<close> is \<open>0\<close> (no operation of the
  program tells them apart). \<open>to_double i\<close> is the Number value of the integer \<open>i\<close>: the
  nearest double, a tie going to the even significand of 53 bits, and an infinity from
  \<open>2^1024 - 2^970\<close> on.
\<close>

datatype number = Finite int | PlusInfinity | MinusInfinity

text \<open>The number of bits of a positive integer, and a non-negative integer rounded to 53
  significant bits.\<close>

function bits :: "int \<Rightarrow> nat" where
  "bits i = (if i \<le> 0 then 0 else Suc (bits (i div 2)))"
  by pat_completeness auto
termination
  by (relation "measure nat") auto

declare bits.simps [simp del]

definition round_bits :: "int \<Rightarrow> int" where
  "round_bits n =
     (if bits n \<le> 53 then n
      else let u = 2 ^ (bits n - 53); q = n div u; r = n mod u
           in if 2 * r < u \<or> (2 * r = u \<and> even q) then q * u else (q + 1) * u)"

definition to_double :: "int \<Rightarrow> number" where
  "to_double i =
     (let m = round_bits \<bar>i\<bar>
      in if 1024 < bits m then (if i < 0 then MinusInfinity else PlusInfinity)
         else Finite (if i < 0 then - m else m))"

text \<open>\<^verbatim>\<open>x - 1\<close> on a number.\<close>

fun minus_one :: "number \<Rightarrow> number" where
  "minus_one (Finite i) = to_double (i - 1)"
| "minus_one PlusInfinity = PlusInfinity"
| "minus_one MinusInfinity = MinusInfinity"

text \<open>
  \<^verbatim>\<open>parseInt(s, 10)\<close>: leading white space, an optional sign, then the longest run of
  digits; \<open>None\<close> is \<^verbatim>\<open>NaN\<close>. The value is the Number value of the numeral. (ECMAScript
  lets an engine replace the digits after the 20th significant one by zeros before it
  rounds; the numeral is rounded as it stands here.)
\<close>

definition parseInt :: "string \<Rightarrow> number option" where
  "parseInt s =
     (let t = dropWhile is_space s;
          (sign, u) = (case t of
                         [] \<Rightarrow> (1, t)
                       | c # r \<Rightarrow> if c = CHR ''-'' then (- 1, r)
                                  else if c = CHR ''+'' then (1, r) else (1, t));
          ds = takeWhile is_digit u
      in if ds = [] then None else Some (to_double (sign * digits_val ds)))"

section \<open>Regular expressions\<close>

text \<open>
  A backtracking matcher in the order of ECMAScript's: \<open>rmatch r s k\<close> lists, first
  choice first, every way \<open>r\<close> can match a prefix of \<open>s\<close>, each as the rest of the input
  and the capture groups (\<open>k\<close> holds them before the match). A star is greedy and an
  iteration must consume input. \<open>Eol\<close> is \<^verbatim>\<open>$\<close> without the multiline flag.
\<close>

datatype regex =
    Chr char
  | Cls "char \<Rightarrow> bool"
  | Cat regex regex
  | Alt regex regex
  | Star regex
  | Grp nat regex
  | Eps
  | Eol

type_synonym captures = "nat \<Rightarrow> string option"

fun rmatch :: "regex \<Rightarrow> string \<Rightarrow> captures \<Rightarrow> (string \<times> captures) list" where
  "rmatch (Chr c) s k = (case s of [] \<Rightarrow> [] | x # xs \<Rightarrow> if x = c then [(xs, k)] else [])"
| "rmatch (Cls p) s k = (case s of [] \<Rightarrow> [] | x # xs \<Rightarrow> if p x then [(xs, k)] else [])"
| "rmatch (Cat a b) s k = concat (map (\<lambda>(s', k'). rmatch b s' k') (rmatch a s k))"
| "rmatch (Alt a b) s k = rmatch a s k @ rmatch b s k"
| "rmatch (Star a) s k =
     concat (map (\<lambda>(s', k'). if length s' < length s then rmatch (Star a) s' k' else [])
                 (rmatch a s k)) @ [(s, k)]"
| "rmatch (Grp n a) s k =
     map (\<lambda>(s', k'). (s', k'(n \<mapsto> take (length s - length s') s))) (rmatch a s k)"
| "rmatch Eps s k = [(s, k)]"
| "rmatch Eol s k = (if s = [] then [(s, k)] else [])"

declare rmatch.simps(5) [simp del]

definition Plus :: "regex \<Rightarrow> regex" where
  "Plus a = Cat a (Star a)"

fun Seq :: "regex list \<Rightarrow> regex" where
  "Seq [] = Eps"
| "Seq [r] = r"
| "Seq (r # q # rs) = Cat r (Seq (q # rs))"

text \<open>The first match that starts at the head of \<open>s\<close>: the rest of the input and the groups.\<close>

definition re_exec_at :: "regex \<Rightarrow> string \<Rightarrow> (string \<times> captures) option" where
  "re_exec_at r s = (case rmatch r s Map.empty of [] \<Rightarrow> None | m # _ \<Rightarrow> Some m)"

text \<open>\<^verbatim>\<open>s.match(r)\<close> for a regular expression without the global flag: the leftmost match.\<close>

fun re_search :: "regex \<Rightarrow> string \<Rightarrow> captures option" where
  "re_search r [] = map_option snd (re_exec_at r [])"
| "re_search r (c # cs) =
     (case re_exec_at r (c # cs) of Some m \<Rightarrow> Some (snd m) | None \<Rightarrow> re_search r cs)"

text \<open>A group of a match; every group read below takes part in every match of its
  expression.\<close>

definition grp :: "captures \<Rightarrow> nat \<Rightarrow> string" where
  "grp k n = (case k n of Some g \<Rightarrow> g | None \<Rightarrow> [])"

text \<open>\<^verbatim>\<open>s.replace(r, rep)\<close> for a global \<open>r\<close> and a replacement without patterns.\<close>

function re_replace_all :: "regex \<Rightarrow> string \<Rightarrow> string \<Rightarrow> string" where
  "re_replace_all r rep s =
     (case re_exec_at r s of
        Some (s', k) \<Rightarrow>
          if length s' < length s then rep @ re_replace_all r rep s'
          else (case s of [] \<Rightarrow> rep | c # cs \<Rightarrow> rep @ c # re_replace_all r rep cs)
      | None \<Rightarrow> (case s of [] \<Rightarrow> [] | c # cs \<Rightarrow> c # re_replace_all r rep cs))"
  by pat_completeness auto
termination
  by (relation "measure (\<lambda>(r, rep, s). length s)") auto

declare re_replace_all.simps [simp del]

text \<open>\<^verbatim>\<open>s.split(r)\<close> for an expression without groups: \<open>piece\<close> is the text since the last
  separator.\<close>

function re_split_from :: "regex \<Rightarrow> string \<Rightarrow> string \<Rightarrow> string list" where
  "re_split_from r piece s =
     (case s of
        [] \<Rightarrow> [piece]
      | c # cs \<Rightarrow>
          (case re_exec_at r s of
             None \<Rightarrow> re_split_from r (piece @ [c]) cs
           | Some (s', k) \<Rightarrow>
               if length s' < length s then piece # re_split_from r [] s'
               else if piece = [] then re_split_from r [c] cs
               else piece # re_split_from r [c] cs))"
  by pat_completeness auto
termination
  by (relation "measure (\<lambda>(r, piece, s). length s)") auto

declare re_split_from.simps [simp del]

definition re_split :: "regex \<Rightarrow> string \<Rightarrow> string list" where
  "re_split r s =
     (if s = [] then (case re_exec_at r [] of None \<Rightarrow> [[]] | Some m \<Rightarrow> [])
      else re_split_from r [] s)"

text \<open>The language of an expression and the texts its groups can hold, to state what a
  match returns.\<close>

inductive matches :: "regex \<Rightarrow> string \<Rightarrow> bool" where
  m_Chr: "matches (Chr c) [c]"
| m_Cls: "p c \<Longrightarrow> matches (Cls p) [c]"
| m_Cat: "matches a u \<Longrightarrow> matches b v \<Longrightarrow> matches (Cat a b) (u @ v)"
| m_AltL: "matches a u \<Longrightarrow> matches (Alt a b) u"
| m_AltR: "matches b u \<Longrightarrow> matches (Alt a b) u"
| m_StarNil: "matches (Star a) []"
| m_StarCons: "matches a u \<Longrightarrow> matches (Star a) v \<Longrightarrow> matches (Star a) (u @ v)"
| m_Grp: "matches a u \<Longrightarrow> matches (Grp n a) u"
| m_Eps: "matches Eps []"
| m_Eol: "matches Eol []"

fun group_of :: "regex \<Rightarrow> nat \<Rightarrow> regex list" where
  "group_of (Cat a b) n = group_of a n @ group_of b n"
| "group_of (Alt a b) n = group_of a n @ group_of b n"
| "group_of (Star a) n = group_of a n"
| "group_of (Grp m a) n = (if m = n then [a] else []) @ group_of a n"
| "group_of r n = []"


section \<open>Data model\<close>

text \<open>
  The \<^verbatim>\<open>Subtitle\<close> interface. The type of the text field is a parameter: the parsers
  produce captions whose text is a string, while the merge loop of the command line stores
  \<^verbatim>\<open>translations[j]\<close> there, which is \<^verbatim>\<open>undefined\<close> when the provider's answer is too
  short (\<open>string option\<close>, \<open>None\<close> for \<^verbatim>\<open>undefined\<close>).
\<close>

record 't subtitle_of =
  index :: number
  startTime :: string
  endTime :: string
  "text" :: 't

type_synonym subtitle = "string subtitle_of"

datatype SubtitleFormat = srt | vtt | ass

section \<open>Parsing\<close>

definition D :: regex where "D = Cls is_digit"
definition S :: regex where "S = Cls is_space"

definition normalizeLineEndings :: "string \<Rightarrow> string" where
  "normalizeLineEndings content =
     re_replace_all (Chr CR) [LF] (re_replace_all (Cat (Chr CR) (Chr LF)) [LF] content)"

text \<open>\<^verbatim>\<open>/\n\n+/\<close>\<close>

definition blank_lines_re :: regex where
  "blank_lines_re = Seq [Chr LF, Plus (Chr LF)]"

definition blocks_of :: "string \<Rightarrow> string list" where
  "blocks_of normalized = filter (\<lambda>block. trim block \<noteq> []) (re_split blank_lines_re normalized)"

definition lines_of :: "string \<Rightarrow> string list" where
  "lines_of block = filter (\<lambda>line. trim line \<noteq> []) (split_on LF block)"

subsection \<open>SubRip\<close>

text \<open>\<^verbatim>\<open>/(\d{2}:\d{2}:\d{2}[,\.]\d{3})\s*-->\s*(\d{2}:\d{2}:\d{2}[,\.]\d{3})/\<close>\<close>

definition srt_stamp :: regex where
  "srt_stamp = Seq [D, D, Chr CHR '':'', D, D, Chr CHR '':'', D, D,
                    Cls (\<lambda>c. c = CHR '','' \<or> c = CHR ''.''), D, D, D]"

definition srt_time_re :: regex where
  "srt_time_re = Seq [Grp 1 srt_stamp, Star S, Chr CHR ''-'', Chr CHR ''-'', Chr CHR ''>'',
                      Star S, Grp 2 srt_stamp]"

fun parseSRT_loop :: "string list \<Rightarrow> subtitle list \<Rightarrow> subtitle list" where
  "parseSRT_loop [] subtitles = subtitles"
| "parseSRT_loop (block # blocks) subtitles =
     (let lines = lines_of block in
      if length lines < 3 then parseSRT_loop blocks subtitles
      else case parseInt (lines ! 0) of
        None \<Rightarrow> parseSRT_loop blocks subtitles
      | Some idx \<Rightarrow>
         (case re_search srt_time_re (lines ! 1) of
            None \<Rightarrow> parseSRT_loop blocks subtitles
          | Some timeMatch \<Rightarrow>
              parseSRT_loop blocks (subtitles @
                [\<lparr>index = idx,
                  startTime = replace_first CHR ''.'' CHR '','' (grp timeMatch 1),
                  endTime = replace_first CHR ''.'' CHR '','' (grp timeMatch 2),
                  text = join [LF] (drop 2 lines)\<rparr>])))"

definition parseSRT :: "string \<Rightarrow> subtitle list" where
  "parseSRT content = parseSRT_loop (blocks_of (normalizeLineEndings content)) []"

subsection \<open>WebVTT\<close>

text \<open>\<^verbatim>\<open>/(\d{2}:\d{2}:\d{2}\.\d{3}|\d{2}:\d{2}\.\d{3})\s*-->\s*(\d{2}:\d{2}:\d{2}\.\d{3}|\d{2}:\d{2}\.\d{3})/\<close>
  and \<^verbatim>\<open>/<[^>]+>/g\<close>\<close>

definition vtt_stamp :: regex where
  "vtt_stamp = Alt (Seq [D, D, Chr CHR '':'', D, D, Chr CHR '':'', D, D, Chr CHR ''.'', D, D, D])
                   (Seq [D, D, Chr CHR '':'', D, D, Chr CHR ''.'', D, D, D])"

definition vtt_time_re :: regex where
  "vtt_time_re = Seq [Grp 1 vtt_stamp, Star S, Chr CHR ''-'', Chr CHR ''-'', Chr CHR ''>'',
                      Star S, Grp 2 vtt_stamp]"

definition tag_re :: regex where
  "tag_re = Seq [Chr CHR ''<'', Plus (Cls (\<lambda>c. c \<noteq> CHR ''>'')), Chr CHR ''>'']"

definition vtt_hours :: "string \<Rightarrow> string" where
  "vtt_hours t = (if length (split_on CHR '':'' t) = 2 then ''00:'' @ t else t)"

text \<open>The loop state is \<open>(index, subtitles)\<close>; the counter is an integer, exact as a double
  for every text a JavaScript string can hold.\<close>

fun parseVTT_loop :: "string list \<Rightarrow> int \<times> subtitle list \<Rightarrow> int \<times> subtitle list" where
  "parseVTT_loop [] st = st"
| "parseVTT_loop (block # blocks) (idx, subtitles) =
     (if trim block = ''WEBVTT'' \<or> startsWith block ''NOTE''
      then parseVTT_loop blocks (idx, subtitles)
      else let lines = lines_of block in
        if length lines < 2 then parseVTT_loop blocks (idx, subtitles)
        else let timeLineIdx = (if includes_str (lines ! 0) ''-->'' then 0 else 1) in
          case re_search vtt_time_re (lines ! timeLineIdx) of
            None \<Rightarrow> parseVTT_loop blocks (idx, subtitles)
          | Some timeMatch \<Rightarrow>
              parseVTT_loop blocks (idx + 1, subtitles @
                [\<lparr>index = Finite (idx + 1),
                  startTime = replace_first CHR ''.'' CHR '','' (vtt_hours (grp timeMatch 1)),
                  endTime = replace_first CHR ''.'' CHR '','' (vtt_hours (grp timeMatch 2)),
                  text = re_replace_all tag_re [] (join [LF] (drop (timeLineIdx + 1) lines))\<rparr>]))"

definition parseVTT :: "string \<Rightarrow> subtitle list" where
  "parseVTT content = snd (parseVTT_loop (blocks_of (normalizeLineEndings content)) (0, []))"

subsection \<open>Advanced SubStation\<close>

text \<open>\<^verbatim>\<open>/(\d+):(\d{2}):(\d{2})\.(\d{2})/\<close>, \<^verbatim>\<open>/\\N/g\<close> and \<^verbatim>\<open>/\{[^}]+\}/g\<close>\<close>

definition ass_stamp_re :: regex where
  "ass_stamp_re = Seq [Grp 1 (Plus D), Chr CHR '':'', Grp 2 (Seq [D, D]), Chr CHR '':'',
                       Grp 3 (Seq [D, D]), Chr CHR ''.'', Grp 4 (Seq [D, D])]"

definition ass_break_re :: regex where
  "ass_break_re = Seq [Chr BSL, Chr CHR ''N'']"

definition ass_override_re :: regex where
  "ass_override_re = Seq [Chr CHR ''{'', Plus (Cls (\<lambda>c. c \<noteq> CHR ''}'')), Chr CHR ''}'']"

definition parse_formatTime :: "string \<Rightarrow> string" where
  "parse_formatTime t =
     (case re_search ass_stamp_re t of
        None \<Rightarrow> ''00:00:00,000''
      | Some m \<Rightarrow> padStart 2 CHR ''0'' (grp m 1) @ '':'' @ grp m 2 @ '':'' @ grp m 3
                   @ '','' @ grp m 4 @ ''0'')"

text \<open>The loop state is \<open>(inEvents, formatFields, index, subtitles)\<close>.\<close>

type_synonym ass_state = "bool \<times> string list \<times> int \<times> subtitle list"

fun parseASS_loop :: "string list \<Rightarrow> ass_state \<Rightarrow> ass_state" where
  "parseASS_loop [] st = st"
| "parseASS_loop (line # lines) (inEvents, formatFields, idx, subtitles) =
     (if trim line = ''[Events]'' then parseASS_loop lines (True, formatFields, idx, subtitles)
      else if startsWith line ''['' \<and> endsWith line '']''
        then parseASS_loop lines (False, formatFields, idx, subtitles)
      else if \<not> inEvents then parseASS_loop lines (inEvents, formatFields, idx, subtitles)
      else if startsWith line ''Format:''
        then parseASS_loop lines
               (inEvents, map (\<lambda>f. toLowerCase (trim f)) (split_on CHR '','' (drop 7 line)),
                idx, subtitles)
      else if startsWith line ''Dialogue:'' then
        (let values = split_on CHR '','' (drop 9 line);
             startIdx = indexOf formatFields ''start'';
             endIdx = indexOf formatFields ''end'';
             textIdx = indexOf formatFields ''text''
         in if startIdx = - 1 \<or> endIdx = - 1 \<or> textIdx = - 1
            then parseASS_loop lines (inEvents, formatFields, idx, subtitles)
            else
              let startTime = map_option trim (js_index values startIdx);
                  endTime = map_option trim (js_index values endIdx);
                  txt = re_replace_all ass_override_re []
                          (re_replace_all ass_break_re [LF]
                             (trim (join '','' (drop (nat textIdx) values))))
              in case (startTime, endTime) of
                   (Some st, Some et) \<Rightarrow>
                     if st = [] \<or> et = []
                     then parseASS_loop lines (inEvents, formatFields, idx, subtitles)
                     else parseASS_loop lines (inEvents, formatFields, idx + 1, subtitles @
                            [\<lparr>index = Finite (idx + 1), startTime = parse_formatTime st,
                              endTime = parse_formatTime et, text = txt\<rparr>])
                 | _ \<Rightarrow> parseASS_loop lines (inEvents, formatFields, idx, subtitles))
      else parseASS_loop lines (inEvents, formatFields, idx, subtitles))"

definition parseASS :: "string \<Rightarrow> subtitle list" where
  "parseASS content =
     (case parseASS_loop (split_on LF (normalizeLineEndings content)) (False, [], 0, []) of
        (inEvents, formatFields, idx, subtitles) \<Rightarrow> subtitles)"

fun parse :: "string \<Rightarrow> SubtitleFormat \<Rightarrow> subtitle list" where
  "parse content vtt = parseVTT content"
| "parse content ass = parseASS content"
| "parse content srt = parseSRT content"

section \<open>Serializing\<close>

definition toSRT :: "subtitle list \<Rightarrow> string" where
  "toSRT subtitles =
     join [LF, LF]
       (map (\<lambda>(i, sub). string_of_nat (i + 1) @ [LF] @ startTime sub @ '' --> '' @ endTime sub
                          @ [LF] @ text sub)
            (enumerate 0 subtitles)) @ [LF]"

definition toVTT :: "subtitle list \<Rightarrow> string" where
  "toVTT subtitles =
     (let header = ''WEBVTT'' @ [LF, LF];
          body = join [LF, LF]
            (map (\<lambda>(i, sub).
                    let start = replace_first CHR '','' CHR ''.'' (startTime sub);
                        end = replace_first CHR '','' CHR ''.'' (endTime sub)
                    in string_of_nat (i + 1) @ [LF] @ start @ '' --> '' @ end @ [LF] @ text sub)
                 (enumerate 0 subtitles))
      in header @ body @ [LF])"

text \<open>\<^verbatim>\<open>/(\d{2}):(\d{2}):(\d{2}),(\d{3})/\<close>\<close>

definition srt_stamp_groups_re :: regex where
  "srt_stamp_groups_re = Seq [Grp 1 (Seq [D, D]), Chr CHR '':'', Grp 2 (Seq [D, D]), Chr CHR '':'',
                              Grp 3 (Seq [D, D]), Chr CHR '','', Grp 4 (Seq [D, D, D])]"

definition ass_header_lines :: "string list" where
  "ass_header_lines =
    [''[Script Info]'',
     ''Title: Translated Subtitles'',
     ''ScriptType: v4.00+'',
     ''Collisions: Normal'',
     ''PlayDepth: 0'',
     [],
     ''[V4+ Styles]'',
     ''Format: Name, Fontname, Fontsize, PrimaryColour, SecondaryColour, OutlineColour, BackColour, Bold, Italic, Underline, StrikeOut, ScaleX, ScaleY, Spacing, Angle, BorderStyle, Outline, Shadow, Alignment, MarginL, MarginR, MarginV, Encoding'',
     ''Style: Default,Arial,20,&H00FFFFFF,&H000000FF,&H00000000,&H00000000,0,0,0,0,100,100,0,0,1,2,2,2,10,10,10,1'',
     [],
     ''[Events]'',
     ''Format: Layer, Start, End, Style, Name, MarginL, MarginR, MarginV, Effect, Text'']"

definition ass_header :: string where
  "ass_header = concat (map (\<lambda>l. l @ [LF]) ass_header_lines)"

definition int_string :: "int \<Rightarrow> string" where
  "int_string i = (if i < 0 then CHR ''-'' # string_of_nat (nat (- i)) else string_of_nat (nat i))"

text \<open>A number in a template literal; the hour that \<^verbatim>\<open>toASS\<close> prints is read from two
  digits, so it is below 100 and printed in full.\<close>

fun number_string :: "number option \<Rightarrow> string" where
  "number_string None = ''NaN''"
| "number_string (Some (Finite i)) = int_string i"
| "number_string (Some PlusInfinity) = ''Infinity''"
| "number_string (Some MinusInfinity) = ''-Infinity''"

definition serialize_formatTime :: "string \<Rightarrow> string" where
  "serialize_formatTime t =
     (case re_search srt_stamp_groups_re t of
        None \<Rightarrow> ''0:00:00.00''
      | Some m \<Rightarrow>
          number_string (parseInt (grp m 1))
          @ '':'' @ grp m 2 @ '':'' @ grp m 3 @ ''.'' @ take 2 (grp m 4))"

definition toASS :: "subtitle list \<Rightarrow> string" where
  "toASS subtitles =
     (let dialogues =
            map (\<lambda>sub.
                   let start = serialize_formatTime (startTime sub);
                       end = serialize_formatTime (endTime sub);
                       txt = re_replace_all (Chr LF) [BSL, CHR ''N''] (text sub)
                   in ''Dialogue: 0,'' @ start @ '','' @ end @ '',Default,,0,0,0,,'' @ txt)
                subtitles
      in ass_header @ join [LF] dialogues @ [LF])"

fun serialize :: "subtitle list \<Rightarrow> SubtitleFormat \<Rightarrow> string" where
  "serialize subtitles vtt = toVTT subtitles"
| "serialize subtitles ass = toASS subtitles"
| "serialize subtitles srt = toSRT subtitles"

section \<open>Batching\<close>

text \<open>
  A JavaScript array of captions holds object references. \<open>deref\<close> reads the object a
  reference points to; for a list of caption values it is the identity. The loop state
  is \<open>(batches, currentBatch, currentChars)\<close>.
\<close>

fun batchSubtitles_loop ::
  "('a \<Rightarrow> subtitle) \<Rightarrow> int \<Rightarrow> int \<Rightarrow> 'a list \<Rightarrow> 'a list list \<times> 'a list \<times> int
    \<Rightarrow> 'a list list \<times> 'a list \<times> int" where
  "batchSubtitles_loop deref batchSize maxChars [] st = st"
| "batchSubtitles_loop deref batchSize maxChars (s # rest) (batches, currentBatch, currentChars) =
     (let textLength = int (length (text (deref s)));
          (batches', currentBatch', currentChars') =
             (if int (length currentBatch) \<ge> batchSize
                 \<or> (currentChars + textLength > maxChars \<and> length currentBatch > 0)
              then (batches @ [currentBatch], [], 0)
              else (batches, currentBatch, currentChars))
      in batchSubtitles_loop deref batchSize maxChars rest
           (batches', currentBatch' @ [s], currentChars' + textLength))"

definition batchSubtitles ::
  "('a \<Rightarrow> subtitle) \<Rightarrow> 'a list \<Rightarrow> int \<Rightarrow> int \<Rightarrow> 'a list list" where
  "batchSubtitles deref subtitles batchSize maxChars =
     (case batchSubtitles_loop deref batchSize maxChars subtitles ([], [], 0) of
        (batches, currentBatch, currentChars) \<Rightarrow>
          if length currentBatch > 0 then batches @ [currentBatch] else batches)"

definition totalChars :: "('a \<Rightarrow> subtitle) \<Rightarrow> 'a list \<Rightarrow> int" where
  "totalChars deref batch = (\<Sum>s\<leftarrow>batch. int (length (text (deref s))))"

section \<open>Providers\<close>

text \<open>A thrown value is an \<^verbatim>\<open>Error\<close> with its message, or any other value with the
  string \<^verbatim>\<open>String(v)\<close> gives for it.\<close>

datatype error = Error string

datatype thrown = Err error | Val string

datatype ProviderName = openai | anthropic | gemini | kimi | whisper

fun requiresApiKey :: "ProviderName \<Rightarrow> bool" where
  "requiresApiKey whisper = False"
| "requiresApiKey p = True"

fun envVar :: "ProviderName \<Rightarrow> string" where
  "envVar openai = ''OPENAI_API_KEY''"
| "envVar anthropic = ''ANTHROPIC_API_KEY''"
| "envVar gemini = ''GEMINI_API_KEY''"
| "envVar kimi = ''KIMI_API_KEY''"
| "envVar whisper = ''''"

fun displayName :: "ProviderName \<Rightarrow> string" where
  "displayName openai = ''OpenAI''"
| "displayName anthropic = ''Anthropic''"
| "displayName gemini = ''Google Gemini''"
| "displayName kimi = ''Kimi''"
| "displayName whisper = ''Whisper (Local)''"

definition detectProvider :: "string \<Rightarrow> ProviderName option" where
  "detectProvider apiKey =
     (if startsWith apiKey ''sk-kimi-'' then Some kimi
      else if startsWith apiKey ''sk-ant-'' \<or> startsWith apiKey ''sk-'' then
        (if startsWith apiKey ''sk-ant-'' then Some anthropic else Some openai)
      else if startsWith apiKey ''AIza'' then Some gemini
      else None)"

text \<open>An optional string is truthy when it is defined and not empty. The environment is a
  map from variable names to values.\<close>

definition truthy :: "string option \<Rightarrow> bool" where
  "truthy v \<longleftrightarrow> (case v of None \<Rightarrow> False | Some s \<Rightarrow> s \<noteq> [])"

definition getApiKey :: "(string \<rightharpoonup> string) \<Rightarrow> ProviderName \<Rightarrow> string option" where
  "getApiKey env p = (if \<not> requiresApiKey p then None else env (envVar p))"

fun detectFromEnv_loop ::
  "(string \<rightharpoonup> string) \<Rightarrow> ProviderName list \<Rightarrow> (ProviderName \<times> string) option" where
  "detectFromEnv_loop env [] = None"
| "detectFromEnv_loop env (p # ps) =
     (case env (envVar p) of
        Some key \<Rightarrow> if key \<noteq> [] then Some (p, key) else detectFromEnv_loop env ps
      | None \<Rightarrow> detectFromEnv_loop env ps)"

definition detectFromEnv :: "(string \<rightharpoonup> string) \<Rightarrow> (ProviderName \<times> string) option" where
  "detectFromEnv env = detectFromEnv_loop env [openai, anthropic, gemini, kimi]"

text \<open>
  \<^verbatim>\<open>createProvider\<close> up to its call of \<^verbatim>\<open>createProviderByName\<close>: the provider's name and
  the key it is created with, or the error of a provider that requires a key and has none.
\<close>

definition createProvider_select ::
  "(string \<rightharpoonup> string) \<Rightarrow> ProviderName option \<Rightarrow> string option \<Rightarrow> ProviderName \<times> string option" where
  "createProvider_select env explicitProvider explicitKey =
     (case explicitProvider of
        Some p \<Rightarrow> (p, if truthy explicitKey then explicitKey else getApiKey env p)
      | None \<Rightarrow>
          if truthy explicitKey then
            (case detectProvider (the explicitKey) of
               Some detected \<Rightarrow> (detected, explicitKey)
             | None \<Rightarrow> (openai, explicitKey))
          else
            (case detectFromEnv env of
               Some (p, key) \<Rightarrow> (p, Some key)
             | None \<Rightarrow> (whisper, None)))"

definition createProvider ::
  "(string \<rightharpoonup> string) \<Rightarrow> ProviderName option \<Rightarrow> string option
    \<Rightarrow> error + ProviderName \<times> string option" where
  "createProvider env explicitProvider explicitKey =
     (case createProvider_select env explicitProvider explicitKey of
        (providerName, apiKey) \<Rightarrow>
          if requiresApiKey providerName \<and> \<not> truthy apiKey
          then Inl (Error (displayName providerName @ '' requires an API key.'' @ [LF]
                 @ ''Set '' @ envVar providerName
                 @ '' environment variable or use --api-key flag.''))
          else Inr (providerName, apiKey))"

subsection \<open>The local provider\<close>

text \<open>The provider interface without its statistics.\<close>

record TranslationProvider =
  name :: ProviderName
  translateBatch :: "subtitle list \<Rightarrow> error + string list"

definition createWhisperProvider :: "string \<Rightarrow> error + TranslationProvider" where
  "createWhisperProvider targetLang =
     (if toLowerCase targetLang \<noteq> ''english'' \<and> toLowerCase targetLang \<noteq> ''en''
      then Inl (Error (''Whisper can only translate TO English, not to '' @ targetLang @ ''.''
             @ [LF] @ ''For translation to other languages, use: --provider openai|anthropic|gemini|kimi''))
      else Inr \<lparr>name = whisper,
                translateBatch = (\<lambda>subtitles.
                  Inl (Error (''Whisper provider does not support text translation.'' @ [LF]
                    @ ''Use '' @ [CHR 0x22] @ ''stt transcribe <audio/video>'' @ [CHR 0x22]
                    @ '' to transcribe audio files.'' @ [LF]
                    @ ''For text translation, use: --provider openai|anthropic|gemini|kimi'')))\<rparr>)"

section \<open>Retry\<close>

text \<open>
  The operation is the sequence of its outcomes: \<open>fn n\<close> is what its call number \<open>n\<close>
  (from 0) returns or throws. The run records the number of calls made, the delays slept
  and the attempts reported to \<^verbatim>\<open>onRetry\<close>.
\<close>

record 'a retry_run =
  outcome :: "error + 'a"
  calls :: nat
  sleeps :: "int list"
  retried :: "(int \<times> error) list"

fun toError :: "thrown \<Rightarrow> error" where
  "toError (Err e) = e"
| "toError (Val s) = Error s"

fun isRetryable :: "error \<Rightarrow> bool" where
  "isRetryable (Error message) \<longleftrightarrow>
     includes_str message ''429'' \<or> includes_str message ''500''
     \<or> includes_str message ''502'' \<or> includes_str message ''503''"

function fetchWithRetry_loop ::
  "(nat \<Rightarrow> thrown + 'a) \<Rightarrow> int \<Rightarrow> int \<Rightarrow> int \<Rightarrow> error \<Rightarrow> nat \<Rightarrow> int list \<Rightarrow> (int \<times> error) list
    \<Rightarrow> 'a retry_run" where
  "fetchWithRetry_loop fn maxRetries baseDelay attempt lastError n slept reported =
     (if attempt \<le> maxRetries + 1 then
        (case fn n of
           Inr v \<Rightarrow> \<lparr>outcome = Inr v, calls = n + 1, sleeps = slept, retried = reported\<rparr>
         | Inl t \<Rightarrow>
             let lastError = toError t in
             if attempt > maxRetries \<or> \<not> isRetryable lastError
             then \<lparr>outcome = Inl lastError, calls = n + 1, sleeps = slept, retried = reported\<rparr>
             else fetchWithRetry_loop fn maxRetries baseDelay (attempt + 1) lastError (n + 1)
                    (slept @ [baseDelay * 2 ^ nat (attempt - 1)])
                    (reported @ [(attempt, lastError)]))
      else \<lparr>outcome = Inl lastError, calls = n, sleeps = slept, retried = reported\<rparr>)"
  by pat_completeness auto
termination
  by (relation "measure (\<lambda>(fn, maxRetries, baseDelay, attempt, rest). nat (maxRetries + 2 - attempt))")
     auto

declare fetchWithRetry_loop.simps [simp del]

definition fetchWithRetry :: "(nat \<Rightarrow> thrown + 'a) \<Rightarrow> int \<Rightarrow> int \<Rightarrow> 'a retry_run" where
  "fetchWithRetry fn maxRetries baseDelay =
     fetchWithRetry_loop fn maxRetries baseDelay 1 (Error ''Unknown error'') 0 [] []"

section \<open>Reading a provider's answer\<close>

text \<open>
  \<^verbatim>\<open>/^\[(\d+)\]\s*(.+)$/\<close>, tried at the head of the line only. \<^verbatim>\<open>lineMap\<close> is a list of
  entries with distinct keys, its size their number; a key is a number, \<open>None\<close> for
  \<^verbatim>\<open>NaN\<close>.
\<close>

definition numbered_re :: regex where
  "numbered_re = Seq [Chr CHR ''['', Grp 1 (Plus D), Chr CHR '']'', Star S,
                      Grp 2 (Plus (Cls is_dot)), Eol]"

fun map_set :: "('k \<times> 'v) list \<Rightarrow> 'k \<Rightarrow> 'v \<Rightarrow> ('k \<times> 'v) list" where
  "map_set [] k v = [(k, v)]"
| "map_set ((k', v') # m) k v = (if k' = k then (k, v) # m else (k', v') # map_set m k v)"

definition parseTranslations_line ::
  "nat \<Rightarrow> (number option \<times> string) list \<Rightarrow> string \<Rightarrow> (number option \<times> string) list" where
  "parseTranslations_line n lineMap line =
     (case re_exec_at numbered_re line of
        Some (rest, m) \<Rightarrow>
          map_set lineMap (map_option minus_one (parseInt (grp m 1))) (trim (grp m 2))
      | None \<Rightarrow>
          let cleanLine = trim line in
          if cleanLine \<noteq> [] \<and> length lineMap < n
          then map_set lineMap (Some (Finite (int (length lineMap)))) cleanLine
          else lineMap)"

fun parseTranslations_lines ::
  "nat \<Rightarrow> string list \<Rightarrow> (number option \<times> string) list \<Rightarrow> (number option \<times> string) list" where
  "parseTranslations_lines n [] lineMap = lineMap"
| "parseTranslations_lines n (line # lines) lineMap =
     parseTranslations_lines n lines (parseTranslations_line n lineMap line)"

definition translation_at :: "(number option \<times> string) list \<Rightarrow> subtitle list \<Rightarrow> nat \<Rightarrow> string" where
  "translation_at lineMap subtitles i =
     (case map_of lineMap (Some (Finite (int i))) of
        Some t \<Rightarrow> if t \<noteq> [] then t else text (subtitles ! i)
      | None \<Rightarrow> text (subtitles ! i))"

definition parseTranslations :: "string \<Rightarrow> subtitle list \<Rightarrow> string list" where
  "parseTranslations response subtitles =
     (let lineMap = parseTranslations_lines (length subtitles) (split_on LF response) []
      in map (translation_at lineMap subtitles) [0..<length subtitles])"

section \<open>Merging the translations\<close>

text \<open>
  The captions are objects: \<open>subtitles\<close> and every batch hold references, \<open>heap\<close> reads
  an object, and \<^verbatim>\<open>indexOf\<close> compares references. The objects are never written; the
  loop fills \<^verbatim>\<open>translatedSubtitles\<close> with new ones, kept here by value, \<open>None\<close> for a
  hole of the array. The provider is the sequence of its answers: \<open>provider i batch\<close> is
  what its call number \<open>i\<close> returns or throws for the captions of \<open>batch\<close>.
\<close>

type_synonym ref = nat

type_synonym merged = "string option subtitle_of option list"

definition spread :: "subtitle \<Rightarrow> 't \<Rightarrow> 't subtitle_of" where
  "spread s t = \<lparr>index = index s, startTime = startTime s, endTime = endTime s, text = t\<rparr>"

definition js_store :: "'a option list \<Rightarrow> int \<Rightarrow> 'a \<Rightarrow> 'a option list" where
  "js_store xs i v =
     (if i < 0 then xs
      else if i < int (length xs) then xs[nat i := Some v]
      else xs @ replicate (nat i - length xs) None @ [Some v])"

function merge_batch ::
  "(ref \<Rightarrow> subtitle) \<Rightarrow> ref list \<Rightarrow> string list \<Rightarrow> int \<Rightarrow> nat \<Rightarrow> merged \<Rightarrow> merged" where
  "merge_batch heap batch translations startIdx j translatedSubtitles =
     (if j < length batch then
        merge_batch heap batch translations startIdx (j + 1)
          (js_store translatedSubtitles (startIdx + int j)
             (spread (heap (batch ! j)) (js_index translations (int j))))
      else translatedSubtitles)"
  by pat_completeness auto
termination
  by (relation "measure (\<lambda>(heap, batch, translations, startIdx, j, out). length batch - j)") auto

declare merge_batch.simps [simp del]

function merge_loop ::
  "(ref \<Rightarrow> subtitle) \<Rightarrow> (nat \<Rightarrow> subtitle list \<Rightarrow> error + string list) \<Rightarrow> ref list \<Rightarrow> ref list list
    \<Rightarrow> nat \<Rightarrow> merged \<Rightarrow> error + merged" where
  "merge_loop heap provider subtitles batches i translatedSubtitles =
     (if i < length batches then
        (let batch = batches ! i;
             startIdx = (case batch of [] \<Rightarrow> - 1 | b # bs \<Rightarrow> indexOf subtitles b)
         in case provider i (map heap batch) of
              Inl e \<Rightarrow> Inl e
            | Inr translations \<Rightarrow>
                merge_loop heap provider subtitles batches (i + 1)
                  (merge_batch heap batch translations startIdx 0 translatedSubtitles))
      else Inr translatedSubtitles)"
  by pat_completeness auto
termination
  by (relation "measure (\<lambda>(heap, provider, subtitles, batches, i, out). length batches - i)") auto

declare merge_loop.simps [simp del]

definition translate_merge ::
  "(ref \<Rightarrow> subtitle) \<Rightarrow> (nat \<Rightarrow> subtitle list \<Rightarrow> error + string list) \<Rightarrow> ref list \<Rightarrow> ref list list
    \<Rightarrow> error + merged" where
  "translate_merge heap provider subtitles batches =
     merge_loop heap provider subtitles batches 0
       (map (\<lambda>r. Some (spread (heap r) (Some (text (heap r))))) subtitles)"

section \<open>Definitions for the properties\<close>

subsection \<open>Batching\<close>

definition batch_ok :: "('a \<Rightarrow> subtitle) \<Rightarrow> int \<Rightarrow> int \<Rightarrow> 'a list \<Rightarrow> bool" where
  "batch_ok deref batchSize maxChars b \<longleftrightarrow>
     b \<noteq> [] \<and> int (length b) \<le> batchSize \<and>
     (totalChars deref b \<le> maxChars
      \<or> (length b = 1 \<and> int (length (text (deref (hd b)))) > maxChars))"

definition cap :: "string \<Rightarrow> subtitle" where
  "cap t = \<lparr>index = Finite 1, startTime = ''00:00:01,000'', endTime = ''00:00:02,000'', text = t\<rparr>"

definition always_429 :: "nat \<Rightarrow> thrown + unit" where
  "always_429 n = Inl (Err (Error ''API error 429: slow down''))"

definition always_400 :: "nat \<Rightarrow> thrown + unit" where
  "always_400 n = Inl (Err (Error ''API error 400: bad request''))"

text \<open>A response with status 400 whose body holds the digits 500.\<close>

definition too_long_400 :: "nat \<Rightarrow> thrown + unit" where
  "too_long_400 n = Inl (Err (Error ''API error 400: request 15003 too long''))"

subsection \<open>Reading a provider's answer\<close>

text \<open>The lowest position of the batch that \<open>lineMap\<close> does not fill.\<close>

definition first_unfilled :: "(number option \<times> string) list \<Rightarrow> nat" where
  "first_unfilled lineMap =
     length (takeWhile (\<lambda>i. map_of lineMap (Some (Finite (int i))) \<noteq> None) [0..<length lineMap])"

definition two_captions :: "subtitle list" where
  "two_captions =
     [\<lparr>index = Finite 1, startTime = ''00:00:01,000'', endTime = ''00:00:02,000'', text = ''Hello''\<rparr>,
      \<lparr>index = Finite 2, startTime = ''00:00:03,000'', endTime = ''00:00:04,000'', text = ''World''\<rparr>]"

subsection \<open>Merging the translations\<close>

text \<open>The position in the full sequence at which batch \<open>k\<close> starts.\<close>

definition batch_start :: "'a list list \<Rightarrow> nat \<Rightarrow> nat" where
  "batch_start batches k = length (concat (take k batches))"

definition five_captions :: "subtitle list" where
  "five_captions =
     map (\<lambda>i. \<lparr>index = Finite (int i + 1), startTime = ''00:00:0'' @ string_of_nat i @ '',000'',
               endTime = ''00:00:0'' @ string_of_nat i @ '',900'', text = ''same line''\<rparr>)
         [0..<5]"

definition numbering_provider :: "nat \<Rightarrow> subtitle list \<Rightarrow> error + string list" where
  "numbering_provider k batch =
     Inr (map (\<lambda>j. ''B'' @ string_of_nat (k + 1) @ ''-'' @ string_of_nat (j + 1)) [0..<length batch])"

subsection \<open>The index of a parsed caption\<close>

text \<open>The captions are numbered from 1 by position; a block that \<^verbatim>\<open>parseSRT\<close> reads as a
  caption.\<close>

definition srt_cue :: "string \<Rightarrow> bool" where
  "srt_cue block \<longleftrightarrow> parseSRT_loop [block] [] \<noteq> []"

definition numbered :: "subtitle list \<Rightarrow> bool" where
  "numbered subtitles \<longleftrightarrow> (\<forall>i < length subtitles. index (subtitles ! i) = Finite (int i + 1))"

subsection \<open>What a match returns\<close>

text \<open>The numbers of the groups of an expression.\<close>

fun groups :: "regex \<Rightarrow> nat set" where
  "groups (Cat a b) = groups a \<union> groups b"
| "groups (Alt a b) = groups a \<union> groups b"
| "groups (Star a) = groups a"
| "groups (Grp n a) = insert n (groups a)"
| "groups r = {}"


subsection \<open>The form of a time\<close>





section \<open>Theorems\<close>

subsection \<open>Batching\<close>

lemma batchSubtitles_loop_concat:
  "batchSubtitles_loop d bs mc xs (B, cur, ch) = (B', cur', ch') \<Longrightarrow>
   concat B' @ cur' = concat B @ cur @ xs"
proof (induction xs arbitrary: B cur ch)
  case Nil
  then show ?case by simp
next
  case (Cons x xs)
  then show ?case by (auto simp: Let_def split: if_splits)
qed

lemma batch_ok_single: "1 \<le> bs \<Longrightarrow> batch_ok d bs mc [x]"
  by (auto simp: batch_ok_def totalChars_def)

lemma batch_ok_snoc:
  assumes "batch_ok d bs mc cur" "int (length cur) < bs"
    and "totalChars d cur + int (length (text (d x))) \<le> mc"
  shows "batch_ok d bs mc (cur @ [x])"
  using assms by (auto simp: batch_ok_def totalChars_def)

lemma batchSubtitles_loop_ok:
  assumes "batchSubtitles_loop d bs mc xs (B, cur, ch) = (B', cur', ch')"
    and "1 \<le> bs"
    and "\<forall>b\<in>set B. batch_ok d bs mc b"
    and "cur = [] \<or> batch_ok d bs mc cur"
    and "ch = totalChars d cur"
  shows "(\<forall>b\<in>set B'. batch_ok d bs mc b) \<and> (cur' = [] \<or> batch_ok d bs mc cur')"
  using assms
proof (induction xs arbitrary: B cur ch)
  case Nil
  then show ?case by simp
next
  case (Cons x xs)
  let ?n = "int (length (text (d x)))"
  show ?case
  proof (cases "int (length cur) \<ge> bs \<or> (ch + ?n > mc \<and> length cur > 0)")
    case True
    with Cons.prems(1)
    have step: "batchSubtitles_loop d bs mc xs (B @ [cur], [x], ?n) = (B', cur', ch')"
      by (auto simp: Let_def split: if_splits)
    from True Cons.prems(2) have "cur \<noteq> []" by auto
    with Cons.prems(4) have "batch_ok d bs mc cur" by simp
    with Cons.prems(3) have all: "\<forall>b\<in>set (B @ [cur]). batch_ok d bs mc b" by simp
    have one: "[x] = [] \<or> batch_ok d bs mc [x]"
      using batch_ok_single[OF Cons.prems(2)] by simp
    show ?thesis
      by (rule Cons.IH[OF step Cons.prems(2) all one]) (simp add: totalChars_def)
  next
    case False
    with Cons.prems(1)
    have step: "batchSubtitles_loop d bs mc xs (B, cur @ [x], ch + ?n) = (B', cur', ch')"
      by (auto simp: Let_def split: if_splits)
    have ok: "batch_ok d bs mc (cur @ [x])"
    proof (cases "cur = []")
      case True
      then show ?thesis using batch_ok_single[OF Cons.prems(2)] by simp
    next
      case nonempty: False
      with Cons.prems(4) have "batch_ok d bs mc cur" by simp
      moreover from False have "int (length cur) < bs" by simp
      moreover from False nonempty Cons.prems(5)
      have "totalChars d cur + ?n \<le> mc" by simp
      ultimately show ?thesis by (rule batch_ok_snoc)
    qed
    then have one: "cur @ [x] = [] \<or> batch_ok d bs mc (cur @ [x])" by simp
    show ?thesis
      by (rule Cons.IH[OF step Cons.prems(2) Cons.prems(3) one])
         (simp add: totalChars_def Cons.prems(5))
  qed
qed

text \<open>
  Claim C2. For a batch size of at least 1, the batches of \<^verbatim>\<open>batchSubtitles\<close> concatenate,
  in order, to the input list; no batch is empty or has more captions than the batch
  size; and the text lengths of a batch add up to at most \<open>maxChars\<close>, unless the batch
  is a single caption whose own text is longer than \<open>maxChars\<close>.
\<close>

theorem batchSubtitles_partition:
  assumes "1 \<le> batchSize"
  shows "concat (batchSubtitles deref subtitles batchSize maxChars) = subtitles \<and>
         (\<forall>b \<in> set (batchSubtitles deref subtitles batchSize maxChars).
            b \<noteq> [] \<and> int (length b) \<le> batchSize \<and>
            (totalChars deref b \<le> maxChars
             \<or> (\<exists>s. b = [s] \<and> int (length (text (deref s))) > maxChars)))"
proof -
  obtain B cur ch where
    run: "batchSubtitles_loop deref batchSize maxChars subtitles ([], [], 0) = (B, cur, ch)"
    by (metis prod_cases3)
  have cat: "concat B @ cur = subtitles"
    using batchSubtitles_loop_concat[OF run] by simp
  have ok: "(\<forall>b\<in>set B. batch_ok deref batchSize maxChars b)
            \<and> (cur = [] \<or> batch_ok deref batchSize maxChars cur)"
    by (rule batchSubtitles_loop_ok[OF run assms]) (simp_all add: totalChars_def)
  have res: "batchSubtitles deref subtitles batchSize maxChars = (if cur = [] then B else B @ [cur])"
    by (simp add: batchSubtitles_def run)
  have single: "\<And>b. length b = 1 \<Longrightarrow> b = [hd b]"
    by (metis One_nat_def length_0_conv length_Suc_conv list.sel(1))
  have "\<forall>b \<in> set (batchSubtitles deref subtitles batchSize maxChars).
          batch_ok deref batchSize maxChars b"
    using ok by (auto simp: res)
  then have "\<forall>b \<in> set (batchSubtitles deref subtitles batchSize maxChars).
            b \<noteq> [] \<and> int (length b) \<le> batchSize \<and>
            (totalChars deref b \<le> maxChars
             \<or> (\<exists>s. b = [s] \<and> int (length (text (deref s))) > maxChars))"
    unfolding batch_ok_def using single by (metis list.sel(1))
  moreover have "concat (batchSubtitles deref subtitles batchSize maxChars) = subtitles"
    using cat by (auto simp: res)
  ultimately show ?thesis by blast
qed

theorem batchSubtitles_partition_witness:
  "(1::int) \<le> 2 \<and>
   batchSubtitles (\<lambda>s. s) [cap ''ab'', cap ''cd'', cap ''abcdefgh'', cap ''e''] 2 5
     = [[cap ''ab'', cap ''cd''], [cap ''abcdefgh''], [cap ''e'']] \<and>
   concat (batchSubtitles (\<lambda>s. s) [cap ''ab'', cap ''cd'', cap ''abcdefgh'', cap ''e''] 2 5)
     = [cap ''ab'', cap ''cd'', cap ''abcdefgh'', cap ''e''] \<and>
   totalChars (\<lambda>s. s) [cap ''ab'', cap ''cd''] \<le> 5 \<and>
   int (length (text (cap ''abcdefgh''))) > 5"
proof -
  have h: "(1::int) \<le> 2" by simp
  have v: "batchSubtitles (\<lambda>s. s) [cap ''ab'', cap ''cd'', cap ''abcdefgh'', cap ''e''] 2 5
     = [[cap ''ab'', cap ''cd''], [cap ''abcdefgh''], [cap ''e'']]"
    by (simp add: batchSubtitles_def cap_def)
  show ?thesis
    using h v batchSubtitles_partition[OF h, of "\<lambda>s. s" "[cap ''ab'', cap ''cd'', cap ''abcdefgh'', cap ''e'']" 5]
    by (simp add: totalChars_def cap_def)
qed

subsection \<open>Provider detection\<close>

text \<open>
  Claim C6. With no explicit provider name and an explicit (non-empty) API key, the
  provider is chosen from the key's prefix: \<^verbatim>\<open>sk-kimi-\<close> gives kimi, \<^verbatim>\<open>sk-ant-\<close> gives
  anthropic, any other \<^verbatim>\<open>sk-\<close> gives openai, \<^verbatim>\<open>AIza\<close> gives gemini and every other key
  gives openai; the provider is created with that key, whatever the environment holds.
\<close>

theorem createProvider_from_key:
  assumes "key \<noteq> []"
  shows "createProvider env None (Some key) =
           Inr (if startsWith key ''sk-kimi-'' then kimi
                else if startsWith key ''sk-ant-'' then anthropic
                else if startsWith key ''sk-'' then openai
                else if startsWith key ''AIza'' then gemini
                else openai, Some key)"
  using assms
  by (simp add: createProvider_def createProvider_select_def truthy_def detectProvider_def)

theorem createProvider_from_key_witness:
  "''sk-kimi-x'' \<noteq> [] \<and>
   createProvider Map.empty None (Some ''sk-kimi-x'') = Inr (kimi, Some ''sk-kimi-x'') \<and>
   createProvider Map.empty None (Some ''sk-ant-x'') = Inr (anthropic, Some ''sk-ant-x'') \<and>
   createProvider Map.empty None (Some ''sk-x'') = Inr (openai, Some ''sk-x'') \<and>
   createProvider Map.empty None (Some ''AIzaXXX'') = Inr (gemini, Some ''AIzaXXX'') \<and>
   createProvider Map.empty None (Some ''key-1'') = Inr (openai, Some ''key-1'')"
proof -
  have h: "''sk-kimi-x'' \<noteq> []" by simp
  show ?thesis
    using h createProvider_from_key[OF h, of Map.empty]
      createProvider_from_key[of "''sk-ant-x''" Map.empty]
      createProvider_from_key[of "''sk-x''" Map.empty]
      createProvider_from_key[of "''AIzaXXX''" Map.empty]
      createProvider_from_key[of "''key-1''" Map.empty]
    by (simp add: startsWith_def)
qed

subsection \<open>The local provider\<close>

text \<open>
  Claim C9. Creating the whisper provider raises whenever the target language, in lower
  case, is neither \<^verbatim>\<open>english\<close> nor \<^verbatim>\<open>en\<close> (and only then); the \<^verbatim>\<open>translateBatch\<close> of a
  provider that was created raises for every batch and returns no translation.
\<close>

theorem whisper_raises:
  "((\<exists>e. createWhisperProvider targetLang = Inl e) \<longleftrightarrow>
      toLowerCase targetLang \<noteq> ''english'' \<and> toLowerCase targetLang \<noteq> ''en'')
   \<and> (\<forall>p. createWhisperProvider targetLang = Inr p \<longrightarrow>
          name p = whisper \<and> (\<forall>subtitles. \<exists>e. translateBatch p subtitles = Inl e))"
  by (auto simp: createWhisperProvider_def)

theorem whisper_raises_witness:
  "(\<exists>e. createWhisperProvider ''Hindi'' = Inl e) \<and>
   (\<exists>p. createWhisperProvider ''EN'' = Inr p \<and>
        (\<exists>e. translateBatch p [\<lparr>index = Finite 1, startTime = ''00:00:01,000'',
                                  endTime = ''00:00:02,000'', text = ''Hola''\<rparr>] = Inl e))"
proof -
  have a: "toLowerCase ''Hindi'' \<noteq> ''english'' \<and> toLowerCase ''Hindi'' \<noteq> ''en''"
    by code_simp
  have b: "toLowerCase ''EN'' = ''en''"
    by code_simp
  from b obtain p where p: "createWhisperProvider ''EN'' = Inr p"
    by (simp add: createWhisperProvider_def)
  show ?thesis
    using a p whisper_raises[of "''Hindi''"] whisper_raises[of "''EN''"] by blast
qed

subsection \<open>Retry\<close>

lemma fetchWithRetry_loop_sleeps:
  assumes "attempt = int n + 1" and "slept = map (\<lambda>k. baseDelay * 2 ^ k) [0..<n]"
    and "n = 0 \<or> attempt \<le> maxRetries + 1"
  shows "sleeps (fetchWithRetry_loop fn maxRetries baseDelay attempt lastError n slept reported)
         = map (\<lambda>k. baseDelay * 2 ^ k)
             [0..<calls (fetchWithRetry_loop fn maxRetries baseDelay attempt lastError n slept reported) - 1]"
  using assms
proof (induction fn maxRetries baseDelay attempt lastError n slept reported
       rule: fetchWithRetry_loop.induct)
  case (1 fn maxRetries baseDelay attempt lastError n slept reported)
  note unfold = fetchWithRetry_loop.simps[of fn maxRetries baseDelay attempt lastError n slept reported]
  show ?case
  proof (cases "attempt \<le> maxRetries + 1")
    case False
    with "1.prems" show ?thesis unfolding unfold by (auto simp: Let_def split: if_splits)
  next
    case True
    show ?thesis
    proof (cases "fn n")
      case (Inr v)
      with True "1.prems" show ?thesis unfolding unfold by (auto simp: Let_def split: if_splits)
    next
      case (Inl t)
      show ?thesis
      proof (cases "attempt > maxRetries \<or> \<not> isRetryable (toError t)")
        case stop: True
        with True Inl "1.prems" show ?thesis unfolding unfold by (auto simp: Let_def split: if_splits)
      next
        case go: False
        have "sleeps (fetchWithRetry_loop fn maxRetries baseDelay (attempt + 1) (toError t) (n + 1)
                 (slept @ [baseDelay * 2 ^ nat (attempt - 1)]) (reported @ [(attempt, toError t)]))
              = map (\<lambda>k. baseDelay * 2 ^ k)
                 [0..<calls (fetchWithRetry_loop fn maxRetries baseDelay (attempt + 1) (toError t) (n + 1)
                 (slept @ [baseDelay * 2 ^ nat (attempt - 1)]) (reported @ [(attempt, toError t)])) - 1]"
          using True Inl go "1.prems"
          by (intro "1.IH"[OF True Inl refl]) auto
        with True Inl go show ?thesis unfolding unfold by (auto simp: Let_def split: if_splits)
      qed
    qed
  qed
qed

lemma fetchWithRetry_loop_exhaust:
  assumes "\<forall>i. \<exists>t. fn i = Inl t \<and> isRetryable (toError t)"
    and "attempt = int n + 1" and "attempt \<le> maxRetries + 1"
  shows "calls (fetchWithRetry_loop fn maxRetries baseDelay attempt lastError n slept reported)
           = nat maxRetries + 1
       \<and> (\<exists>t. fn (nat maxRetries) = Inl t
              \<and> outcome (fetchWithRetry_loop fn maxRetries baseDelay attempt lastError n slept reported)
                  = Inl (toError t))"
  using assms
proof (induction fn maxRetries baseDelay attempt lastError n slept reported
       rule: fetchWithRetry_loop.induct)
  case (1 fn maxRetries baseDelay attempt lastError n slept reported)
  note unfold = fetchWithRetry_loop.simps[of fn maxRetries baseDelay attempt lastError n slept reported]
  from "1.prems"(1) obtain t where t: "fn n = Inl t" "isRetryable (toError t)" by blast
  show ?case
  proof (cases "attempt > maxRetries")
    case True
    with "1.prems" have "n = nat maxRetries" by simp
    with True t "1.prems" show ?thesis unfolding unfold by (auto simp: Let_def split: if_splits)
  next
    case False
    have "calls (fetchWithRetry_loop fn maxRetries baseDelay (attempt + 1) (toError t) (n + 1)
                 (slept @ [baseDelay * 2 ^ nat (attempt - 1)]) (reported @ [(attempt, toError t)]))
           = nat maxRetries + 1
       \<and> (\<exists>t'. fn (nat maxRetries) = Inl t'
              \<and> outcome (fetchWithRetry_loop fn maxRetries baseDelay (attempt + 1) (toError t) (n + 1)
                 (slept @ [baseDelay * 2 ^ nat (attempt - 1)]) (reported @ [(attempt, toError t)]))
                  = Inl (toError t'))"
      using False t "1.prems"
      by (intro "1.IH"[OF "1.prems"(3) t(1) refl]) auto
    with False t "1.prems" show ?thesis unfolding unfold by (auto simp: Let_def split: if_splits)
  qed
qed

text \<open>
  Claim C4 as stated fails. An error is retried when its message holds one of the texts
  \<^verbatim>\<open>429\<close>, \<^verbatim>\<open>500\<close>, \<^verbatim>\<open>502\<close>, \<^verbatim>\<open>503\<close> anywhere: a response with status 400 whose body
  holds \<^verbatim>\<open>15003\<close> is no error of status 429, 500, 502 or 503, yet with a budget of 3 it is
  attempted 4 times, after delays of 1000, 2000 and 4000. And with the budget \<open>-1\<close>, which
  the command line accepts, no attempt is made at all and the error raised is the
  initial \<^verbatim>\<open>Unknown error\<close>.
\<close>

theorem fetchWithRetry_counterexample:
  "calls (fetchWithRetry too_long_400 3 1000) = 4
   \<and> sleeps (fetchWithRetry too_long_400 3 1000) = [1000, 2000, 4000]
   \<and> outcome (fetchWithRetry too_long_400 3 1000)
       = Inl (Error ''API error 400: request 15003 too long'')
   \<and> calls (fetchWithRetry always_400 (- 1) 1000) = 0
   \<and> outcome (fetchWithRetry always_400 (- 1) 1000) = Inl (Error ''Unknown error'')"
  by code_simp

text \<open>
  Claim C4, amended. For an integer retry budget \<open>maxRetries \<ge> 0\<close>: an operation whose every
  call fails with an error whose message contains \<^verbatim>\<open>429\<close>, \<^verbatim>\<open>500\<close>, \<^verbatim>\<open>502\<close> or \<^verbatim>\<open>503\<close> is
  called exactly \<open>maxRetries + 1\<close> times and the error of its last call is raised; an
  operation whose first call fails with an error whose message contains none of them is
  called once and that error is raised; and in every run the delay slept after failure
  number \<open>k\<close> (from 1) is \<open>baseDelay * 2^(k-1)\<close>, one delay for each call but the last.
\<close>

theorem fetchWithRetry_attempts:
  assumes "0 \<le> maxRetries"
  shows "((\<forall>i. \<exists>t. fn i = Inl t \<and> isRetryable (toError t)) \<longrightarrow>
            calls (fetchWithRetry fn maxRetries baseDelay) = nat maxRetries + 1 \<and>
            (\<exists>t. fn (nat maxRetries) = Inl t \<and>
                 outcome (fetchWithRetry fn maxRetries baseDelay) = Inl (toError t)))
       \<and> (\<forall>t. fn 0 = Inl t \<and> \<not> isRetryable (toError t) \<longrightarrow>
            calls (fetchWithRetry fn maxRetries baseDelay) = 1 \<and>
            outcome (fetchWithRetry fn maxRetries baseDelay) = Inl (toError t) \<and>
            sleeps (fetchWithRetry fn maxRetries baseDelay) = [])
       \<and> sleeps (fetchWithRetry fn maxRetries baseDelay)
           = map (\<lambda>k. baseDelay * 2 ^ k) [0..<calls (fetchWithRetry fn maxRetries baseDelay) - 1]"
proof (intro conjI impI allI)
  assume "\<forall>i. \<exists>t. fn i = Inl t \<and> isRetryable (toError t)"
  from fetchWithRetry_loop_exhaust[OF this, of 1 0 maxRetries] assms
  show "calls (fetchWithRetry fn maxRetries baseDelay) = nat maxRetries + 1"
    and "\<exists>t. fn (nat maxRetries) = Inl t \<and>
                 outcome (fetchWithRetry fn maxRetries baseDelay) = Inl (toError t)"
    by (simp_all add: fetchWithRetry_def)
next
  fix t assume "fn 0 = Inl t \<and> \<not> isRetryable (toError t)"
  with assms show "calls (fetchWithRetry fn maxRetries baseDelay) = 1"
    and "outcome (fetchWithRetry fn maxRetries baseDelay) = Inl (toError t)"
    and "sleeps (fetchWithRetry fn maxRetries baseDelay) = []"
    by (simp_all add: fetchWithRetry_def fetchWithRetry_loop.simps[of _ _ _ 1] Let_def)
next
  show "sleeps (fetchWithRetry fn maxRetries baseDelay)
           = map (\<lambda>k. baseDelay * 2 ^ k) [0..<calls (fetchWithRetry fn maxRetries baseDelay) - 1]"
    unfolding fetchWithRetry_def by (rule fetchWithRetry_loop_sleeps) simp_all
qed

theorem fetchWithRetry_attempts_witness:
  "(0::int) \<le> 3 \<and>
   calls (fetchWithRetry always_429 3 1000) = 4 \<and>
   outcome (fetchWithRetry always_429 3 1000) = Inl (Error ''API error 429: slow down'') \<and>
   sleeps (fetchWithRetry always_429 3 1000) = [1000, 2000, 4000] \<and>
   calls (fetchWithRetry always_400 3 1000) = 1 \<and>
   outcome (fetchWithRetry always_400 3 1000) = Inl (Error ''API error 400: bad request'') \<and>
   sleeps (fetchWithRetry always_400 3 1000) = []"
proof -
  have h: "(0::int) \<le> 3" by simp
  have r: "\<forall>i. \<exists>t. always_429 i = Inl t \<and> isRetryable (toError t)"
    by (simp add: always_429_def startsWith_def)
  have n: "always_400 0 = Inl (Err (Error ''API error 400: bad request''))
           \<and> \<not> isRetryable (toError (Err (Error ''API error 400: bad request'')))"
    by (simp add: always_400_def startsWith_def)
  have upt: "[0..<3] = [0, 1, 2]" by (simp add: upt_rec)
  show ?thesis
    using h r n fetchWithRetry_attempts[OF h, of always_429 1000]
      fetchWithRetry_attempts[OF h, of always_400 1000]
    by (auto simp: always_429_def upt)
qed

subsection \<open>Reading a provider's answer\<close>

lemma map_of_map_set: "map_of (map_set m k v) = (map_of m)(k \<mapsto> v)"
  by (induction m k v rule: map_set.induct) (auto simp: fun_eq_iff)

lemma length_parseTranslations:
  "length (parseTranslations response subtitles) = length subtitles"
  by (simp add: parseTranslations_def Let_def)

lemma nth_parseTranslations:
  "i < length subtitles \<Longrightarrow>
   parseTranslations response subtitles ! i =
     translation_at (parseTranslations_lines (length subtitles) (split_on LF response) [])
       subtitles i"
  by (simp add: parseTranslations_def Let_def)

text \<open>
  Claim C3. For every batch and every answer text, the answer is read into a list as long
  as the batch; a position for which the answer gave no text, or only an empty one, holds
  the caption's own text, and every other position the text the answer gave for it. The
  step is a total function: no input makes it raise.
\<close>

theorem parseTranslations_fallback:
  "length (parseTranslations response subtitles) = length subtitles \<and>
   (\<forall>i < length subtitles.
      parseTranslations response subtitles ! i =
        (case map_of (parseTranslations_lines (length subtitles) (split_on LF response) [])
                (Some (Finite (int i))) of
           None \<Rightarrow> text (subtitles ! i)
         | Some t \<Rightarrow> if t = [] then text (subtitles ! i) else t))"
  by (auto simp: length_parseTranslations nth_parseTranslations translation_at_def
           split: option.splits)

theorem parseTranslations_fallback_witness:
  "parseTranslations ''[1] Hola'' two_captions = [''Hola'', ''World''] \<and>
   length (parseTranslations ''[1] Hola'' two_captions) = length two_captions \<and>
   map_of (parseTranslations_lines 2 (split_on LF ''[1] Hola'') []) (Some (Finite 1)) = None \<and>
   parseTranslations [] two_captions = [''Hello'', ''World'']"
proof -
  have a: "parseTranslations ''[1] Hola'' two_captions = [''Hola'', ''World'']"
    by code_simp
  have b: "map_of (parseTranslations_lines 2 (split_on LF ''[1] Hola'') []) (Some (Finite 1)) = None"
    by code_simp
  have c: "parseTranslations [] two_captions = [''Hello'', ''World'']"
    by code_simp
  show ?thesis
    using a b c parseTranslations_fallback[of "''[1] Hola''" two_captions] by simp
qed

text \<open>
  Claim C7 as stated fails: after the answer line \<^verbatim>\<open>[2] B\<close> for a batch of two, the lowest
  position not yet filled is the first one, but the line \<^verbatim>\<open>foo\<close> is stored at the second
  position (the number of positions filled so far), where it replaces \<^verbatim>\<open>B\<close>; the first
  position keeps the caption's own text.
\<close>

theorem unnumbered_line_counterexample:
  "parseTranslations_lines 2 [''[2] B''] [] = [(Some (Finite 1), ''B'')] \<and>
   first_unfilled [(Some (Finite 1), ''B'')] = 0 \<and>
   parseTranslations_line 2 [(Some (Finite 1), ''B'')] ''foo'' = [(Some (Finite 1), ''foo'')] \<and>
   parseTranslations (''[2] B'' @ [LF] @ ''foo'') two_captions = [''Hello'', ''foo'']"
  by code_simp

lemma first_unfilled_prefix:
  "(\<forall>i < length lineMap. map_of lineMap (Some (Finite (int i))) \<noteq> None) \<Longrightarrow>
   first_unfilled lineMap = length lineMap"
proof -
  assume a: "\<forall>i < length lineMap. map_of lineMap (Some (Finite (int i))) \<noteq> None"
  have "takeWhile (\<lambda>i. map_of lineMap (Some (Finite (int i))) \<noteq> None) [0..<length lineMap]
        = [0..<length lineMap]"
    unfolding takeWhile_eq_all_conv using a by simp
  then show ?thesis unfolding first_unfilled_def by (simp only: length_upt diff_zero)
qed

text \<open>
  Claim C7, amended. A line that does not match the numbered shape and is not blank is
  stored, trimmed, at the position equal to the number of positions filled so far, when
  that number is below the batch length, and every other position keeps what it held;
  otherwise the line is dropped. That position is the lowest position not yet filled
  whenever the positions filled so far are the first ones of the batch.
\<close>

theorem unnumbered_line_position:
  assumes "re_exec_at numbered_re line = None" and "trim line \<noteq> []"
  shows "(length lineMap < n \<longrightarrow>
            map_of (parseTranslations_line n lineMap line)
              = (map_of lineMap)(Some (Finite (int (length lineMap))) \<mapsto> trim line))
       \<and> (\<not> length lineMap < n \<longrightarrow> parseTranslations_line n lineMap line = lineMap)
       \<and> ((\<forall>i < length lineMap. map_of lineMap (Some (Finite (int i))) \<noteq> None) \<longrightarrow>
            first_unfilled lineMap = length lineMap)"
  using assms
  by (auto simp: parseTranslations_line_def Let_def map_of_map_set first_unfilled_prefix)

theorem unnumbered_line_position_witness:
  "re_exec_at numbered_re ''foo'' = None \<and> trim ''foo'' \<noteq> [] \<and>
   map_of (parseTranslations_line 2 [(Some (Finite 0), ''A'')] ''foo'') (Some (Finite 1)) = Some ''foo'' \<and>
   map_of (parseTranslations_line 2 [(Some (Finite 0), ''A'')] ''foo'') (Some (Finite 0)) = Some ''A'' \<and>
   first_unfilled [(Some (Finite 0), ''A'')] = 1 \<and>
   parseTranslations_line 1 [(Some (Finite 0), ''A'')] ''foo'' = [(Some (Finite 0), ''A'')]"
proof -
  have h1: "re_exec_at numbered_re ''foo'' = None" by code_simp
  have h2: "trim ''foo'' \<noteq> []" by code_simp
  have h3: "trim ''foo'' = ''foo''" by code_simp
  show ?thesis
    using h1 h2 h3 unnumbered_line_position[OF h1 h2, of "[(Some (Finite 0), ''A'')]" 2]
      unnumbered_line_position[OF h1 h2, of "[(Some (Finite 0), ''A'')]" 1]
    by simp
qed

subsection \<open>Merging the translations\<close>

lemma concat_batchSubtitles:
  "concat (batchSubtitles deref subtitles batchSize maxChars) = subtitles"
proof -
  obtain B cur ch where
    run: "batchSubtitles_loop deref batchSize maxChars subtitles ([], [], 0) = (B, cur, ch)"
    by (metis prod_cases3)
  from batchSubtitles_loop_concat[OF run] show ?thesis
    by (auto simp: batchSubtitles_def run)
qed

lemma indexOf_first: "x \<notin> set xs \<Longrightarrow> indexOf (xs @ x # ys) x = int (length xs)"
  by (induction xs) (auto simp: Let_def)

lemma batch_start_Suc:
  "k < length batches \<Longrightarrow> batch_start batches (Suc k) = batch_start batches k + length (batches ! k)"
  by (simp add: batch_start_def take_Suc_conv_app_nth)

lemma batch_start_mono: "k \<le> k' \<Longrightarrow> batch_start batches k \<le> batch_start batches k'"
proof (induction k' arbitrary: k)
  case 0
  then show ?case by simp
next
  case (Suc k')
  show ?case
  proof (cases "k = Suc k'")
    case True
    then show ?thesis by simp
  next
    case False
    with Suc.prems have le: "k \<le> k'" by simp
    have "batch_start batches k' \<le> batch_start batches (Suc k')"
    proof (cases "k' < length batches")
      case True
      then show ?thesis by (simp add: batch_start_Suc)
    next
      case False
      then show ?thesis by (simp add: batch_start_def)
    qed
    with Suc.IH[OF le] show ?thesis by simp
  qed
qed

lemma batch_start_end:
  assumes "k < length batches"
  shows "batch_start batches k + length (batches ! k) \<le> length (concat batches)"
proof -
  have "batch_start batches (Suc k) \<le> batch_start batches (length batches)"
    using assms by (intro batch_start_mono) simp
  then show ?thesis using assms by (simp add: batch_start_Suc) (simp add: batch_start_def)
qed

lemma indexOf_batch_head:
  assumes "distinct (concat batches)" and "k < length batches" and "batches ! k = b # bs"
  shows "indexOf (concat batches) b = int (batch_start batches k)"
proof -
  have split: "concat batches = concat (take k batches) @ b # (bs @ concat (drop (Suc k) batches))"
    using assms(2,3) by (metis append_Cons append_assoc concat.simps(2) concat_append id_take_nth_drop)
  with assms(1) have "b \<notin> set (concat (take k batches))"
    by (metis disjoint_insert(1) distinct_append list.simps(15))
  from indexOf_first[OF this] split show ?thesis
    by (simp add: batch_start_def)
qed

lemma merge_batch_closed_gen:
  assumes "si = int s" and "j \<le> length batch" and "s + length batch \<le> length out"
  shows "merge_batch heap batch trs si j out =
           take (s + j) out
           @ map (\<lambda>i. Some (spread (heap (batch ! i)) (js_index trs (int i))))
               [j..<length batch]
           @ drop (s + length batch) out"
  using assms
proof (induction heap batch trs si j out rule: merge_batch.induct)
  case (1 heap batch trs si j out)
  note unfold = merge_batch.simps[of heap batch trs si j out]
  show ?case
  proof (cases "j < length batch")
    case False
    with "1.prems" have "j = length batch" by simp
    then show ?thesis unfolding unfold by simp
  next
    case True
    let ?v = "spread (heap (batch ! j)) (js_index trs (int j))"
    let ?out = "js_store out (si + int j) ?v"
    have inr: "s + j < length out" using True "1.prems" by simp
    then have st: "?out = out[s + j := Some ?v]"
      using "1.prems"(1) by (simp add: js_store_def nat_add_distrib)
    have IH: "merge_batch heap batch trs si (j + 1) ?out =
           take (s + (j + 1)) ?out
           @ map (\<lambda>i. Some (spread (heap (batch ! i)) (js_index trs (int i))))
               [j + 1..<length batch]
           @ drop (s + length batch) ?out"
    proof (rule "1.IH"[OF True])
      show "si = int s" by fact
      show "j + 1 \<le> length batch" using True by simp
      show "s + length batch \<le> length ?out" unfolding st using "1.prems"(3) by simp
    qed
    have t: "take (s + (j + 1)) ?out = take (s + j) out @ [Some ?v]"
      using inr by (simp add: st take_Suc_conv_app_nth)
    have d: "drop (s + length batch) ?out = drop (s + length batch) out"
      using True by (simp add: st)
    have u: "[j..<length batch] = j # [j + 1..<length batch]"
      using True by (simp add: upt_rec)
    have "merge_batch heap batch trs si j out = merge_batch heap batch trs si (j + 1) ?out"
      using True by (subst unfold) simp
    also note IH
    finally show ?thesis unfolding t d u by simp
  qed
qed

lemma merge_batch_closed:
  assumes "j \<le> length batch" and "s + length batch \<le> length out"
  shows "merge_batch heap batch trs (int s) j out =
           take (s + j) out
           @ map (\<lambda>i. Some (spread (heap (batch ! i)) (js_index trs (int i))))
               [j..<length batch]
           @ drop (s + length batch) out"
  by (rule merge_batch_closed_gen[OF refl assms])

lemma merge_batch_nth:
  assumes "s + length batch \<le> length out"
  shows "length (merge_batch heap batch trs (int s) 0 out) = length out"
    and "p < length out \<Longrightarrow>
         merge_batch heap batch trs (int s) 0 out ! p =
           (if s \<le> p \<and> p < s + length batch
            then Some (spread (heap (batch ! (p - s))) (js_index trs (int (p - s))))
            else out ! p)"
proof -
  note c = merge_batch_closed[OF _ assms, of 0 heap trs, simplified]
  show "length (merge_batch heap batch trs (int s) 0 out) = length out"
    using assms by (simp add: c)
  assume "p < length out"
  then show "merge_batch heap batch trs (int s) 0 out ! p =
           (if s \<le> p \<and> p < s + length batch
            then Some (spread (heap (batch ! (p - s))) (js_index trs (int (p - s))))
            else out ! p)"
    using assms by (auto simp: c nth_append)
qed

lemma merge_batch_empty: "merge_batch heap [] trs s 0 out = out"
  by (simp add: merge_batch.simps)

lemma merge_loop_inv:
  assumes "merge_loop heap provider subs batches i out = Inr final"
    and "distinct subs" and "concat batches = subs" and "length out = length subs"
    and "i \<le> length batches"
    and "\<forall>k<i. \<forall>j<length (batches ! k). \<exists>trs.
           provider k (map heap (batches ! k)) = Inr trs \<and>
           out ! (batch_start batches k + j)
             = Some (spread (heap (batches ! k ! j)) (js_index trs (int j)))"
  shows "length final = length subs \<and>
         (\<forall>k<length batches. \<forall>j<length (batches ! k). \<exists>trs.
           provider k (map heap (batches ! k)) = Inr trs \<and>
           final ! (batch_start batches k + j)
             = Some (spread (heap (batches ! k ! j)) (js_index trs (int j))))"
  using assms
proof (induction heap provider subs batches i out rule: merge_loop.induct)
  case (1 heap provider subs batches i out)
  note unfold = merge_loop.simps[of heap provider subs batches i out]
  show ?case
  proof (cases "i < length batches")
    case False
    with "1.prems"(5) have "i = length batches" by simp
    with "1.prems"(1,4,6) show ?thesis unfolding unfold by simp
  next
    case True
    let ?batch = "batches ! i"
    let ?s = "batch_start batches i"
    let ?startIdx = "case ?batch of [] \<Rightarrow> - 1 | b # bs \<Rightarrow> indexOf subs b"
    from "1.prems"(1) True obtain trs where
      trs: "provider i (map heap ?batch) = Inr trs"
      unfolding unfold by (auto simp: Let_def split: sum.splits)
    let ?out = "merge_batch heap ?batch trs ?startIdx 0 out"
    from "1.prems"(1) True trs
    have run: "merge_loop heap provider subs batches (i + 1) ?out = Inr final"
      unfolding unfold by (simp add: Let_def)
    have fits: "?s + length ?batch \<le> length out"
      using batch_start_end[OF True] "1.prems"(3,4) by simp
    have out': "?out = merge_batch heap ?batch trs (int ?s) 0 out"
    proof (cases ?batch)
      case Nil
      then show ?thesis by (simp add: merge_batch.simps)
    next
      case (Cons b bs)
      with indexOf_batch_head[OF _ True Cons] "1.prems"(2,3) show ?thesis by simp
    qed
    have len: "length ?out = length subs"
      unfolding out' using merge_batch_nth(1)[OF fits] "1.prems"(4) by simp
    have inv: "\<forall>k<i + 1. \<forall>j<length (batches ! k). \<exists>trs.
           provider k (map heap (batches ! k)) = Inr trs \<and>
           ?out ! (batch_start batches k + j)
             = Some (spread (heap (batches ! k ! j)) (js_index trs (int j)))"
    proof (intro allI impI)
      fix k j assume k: "k < i + 1" and j: "j < length (batches ! k)"
      show "\<exists>trs. provider k (map heap (batches ! k)) = Inr trs \<and>
           ?out ! (batch_start batches k + j)
             = Some (spread (heap (batches ! k ! j)) (js_index trs (int j)))"
      proof (cases "k = i")
        case True
        have "?s + j < length out" using fits j True by simp
        from merge_batch_nth(2)[OF fits this, of heap trs] j True
        have "?out ! (?s + j) = Some (spread (heap (?batch ! j)) (js_index trs (int j)))"
          unfolding out' by simp
        with trs True show ?thesis by simp
      next
        case False
        with k have ki: "k < i" by simp
        with "1.prems"(6) j obtain t where
          t: "provider k (map heap (batches ! k)) = Inr t"
             "out ! (batch_start batches k + j)
                = Some (spread (heap (batches ! k ! j)) (js_index t (int j)))"
          by blast
        have kl: "k < length batches" using ki True by simp
        have "batch_start batches k + j < batch_start batches (Suc k)"
          using j by (simp add: batch_start_Suc[OF kl])
        also have "\<dots> \<le> ?s" using ki by (intro batch_start_mono) simp
        finally have before: "batch_start batches k + j < ?s" .
        then have "batch_start batches k + j < length out" using fits by simp
        from merge_batch_nth(2)[OF fits this, of heap trs] before
        have "?out ! (batch_start batches k + j) = out ! (batch_start batches k + j)"
          unfolding out' by simp
        with t show ?thesis by simp
      qed
    qed
    show ?thesis
      by (rule "1.IH"[OF True refl refl trs run "1.prems"(2,3) len _ inv]) (use True in simp)
  qed
qed

lemma batch_start_Cons: "batch_start (b # bs) (Suc k) = length b + batch_start bs k"
  by (simp add: batch_start_def)

lemma batch_cover:
  "i < length (concat bs) \<Longrightarrow>
   \<exists>k j. k < length bs \<and> j < length (bs ! k) \<and> i = batch_start bs k + j
         \<and> concat bs ! i = bs ! k ! j"
proof (induction bs arbitrary: i)
  case Nil
  then show ?case by simp
next
  case (Cons b bs)
  show ?case
  proof (cases "i < length b")
    case True
    then have "0 < length (b # bs) \<and> i < length ((b # bs) ! 0) \<and> i = batch_start (b # bs) 0 + i
         \<and> concat (b # bs) ! i = (b # bs) ! 0 ! i"
      by (simp add: batch_start_def nth_append)
    then show ?thesis by blast
  next
    case False
    with Cons.prems have "i - length b < length (concat bs)" by simp
    from Cons.IH[OF this] obtain k j where
      kj: "k < length bs" "j < length (bs ! k)" "i - length b = batch_start bs k + j"
          "concat bs ! (i - length b) = bs ! k ! j" by blast
    with False have "Suc k < length (b # bs) \<and> j < length ((b # bs) ! Suc k)
         \<and> i = batch_start (b # bs) (Suc k) + j
         \<and> concat (b # bs) ! i = (b # bs) ! Suc k ! j"
      by (simp add: batch_start_Cons nth_append)
    then show ?thesis by blast
  qed
qed

lemma batch_position_unique:
  assumes "k < length bs" "j < length (bs ! k)" "k' < length bs" "j' < length (bs ! k')"
    and "batch_start bs k + j = batch_start bs k' + j'"
  shows "k = k' \<and> j = j'"
proof -
  have less: "\<And>a b x. a < b \<Longrightarrow> a < length bs \<Longrightarrow> x < length (bs ! a) \<Longrightarrow>
                batch_start bs a + x < batch_start bs b"
  proof -
    fix a b x assume "a < b" "a < length bs" "x < length (bs ! a)"
    then have "batch_start bs a + x < batch_start bs (Suc a)" by (simp add: batch_start_Suc)
    also have "\<dots> \<le> batch_start bs b" using \<open>a < b\<close> by (intro batch_start_mono) simp
    finally show "batch_start bs a + x < batch_start bs b" .
  qed
  have "\<not> k < k'" using less[of k k' j] assms by force
  moreover have "\<not> k' < k" using less[of k' k j'] assms by force
  ultimately have "k = k'" by simp
  with assms(5) show ?thesis by simp
qed

text \<open>
  Claim C1. The captions are the objects \<open>0, 1, ...\<close> that parsing created, in order, and the
  batches are those \<^verbatim>\<open>batchSubtitles\<close> makes of them, for any batch size and character
  limit. When the merge loop completes, its output has the length of the input; every
  position \<open>i\<close> lies in a batch \<open>k\<close> at an offset \<open>j\<close>, and in one only; and the output at \<open>i\<close>
  is the caption of position \<open>i\<close> with its index and times unchanged and with the text
  \<^verbatim>\<open>translations[j]\<close> of the provider's answer for batch \<open>k\<close>.
\<close>

theorem merge_keeps_positions:
  assumes "translate_merge (\<lambda>r. caps ! r) provider [0..<length caps]
             (batchSubtitles (\<lambda>r. caps ! r) [0..<length caps] batchSize maxChars) = Inr out"
  shows "(let batches = batchSubtitles (\<lambda>r. caps ! r) [0..<length caps] batchSize maxChars in
          length out = length caps \<and>
          (\<forall>i < length caps. \<exists>k j trs.
              k < length batches \<and> j < length (batches ! k) \<and> i = batch_start batches k + j \<and>
              batches ! k ! j = i \<and>
              provider k (map (\<lambda>r. caps ! r) (batches ! k)) = Inr trs \<and>
              out ! i = Some \<lparr>index = index (caps ! i), startTime = startTime (caps ! i),
                               endTime = endTime (caps ! i), text = js_index trs (int j)\<rparr>) \<and>
          (\<forall>k j k' j'. k < length batches \<and> j < length (batches ! k) \<and>
              k' < length batches \<and> j' < length (batches ! k') \<and>
              batch_start batches k + j = batch_start batches k' + j' \<longrightarrow> k = k' \<and> j = j'))"
proof -
  define batches where "batches = batchSubtitles (\<lambda>r. caps ! r) [0..<length caps] batchSize maxChars"
  have cat: "concat batches = [0..<length caps]"
    unfolding batches_def by (rule concat_batchSubtitles)
  from assms have run: "merge_loop (\<lambda>r. caps ! r) provider [0..<length caps] batches 0
       (map (\<lambda>r. Some (spread (caps ! r) (Some (text (caps ! r))))) [0..<length caps]) = Inr out"
    by (simp add: translate_merge_def batches_def)
  have inv: "length out = length [0..<length caps] \<and>
         (\<forall>k<length batches. \<forall>j<length (batches ! k). \<exists>trs.
           provider k (map (\<lambda>r. caps ! r) (batches ! k)) = Inr trs \<and>
           out ! (batch_start batches k + j)
             = Some (spread (caps ! (batches ! k ! j)) (js_index trs (int j))))"
    by (rule merge_loop_inv[OF run _ cat]) simp_all
  have pos: "\<forall>i < length caps. \<exists>k j trs.
              k < length batches \<and> j < length (batches ! k) \<and> i = batch_start batches k + j \<and>
              batches ! k ! j = i \<and>
              provider k (map (\<lambda>r. caps ! r) (batches ! k)) = Inr trs \<and>
              out ! i = Some \<lparr>index = index (caps ! i), startTime = startTime (caps ! i),
                               endTime = endTime (caps ! i), text = js_index trs (int j)\<rparr>"
  proof (intro allI impI)
    fix i assume i: "i < length caps"
    then have "i < length (concat batches)" by (simp add: cat)
    from batch_cover[OF this] obtain k j where
      kj: "k < length batches" "j < length (batches ! k)" "i = batch_start batches k + j"
          "concat batches ! i = batches ! k ! j" by blast
    from kj(4) i have ref: "batches ! k ! j = i" by (simp add: cat)
    from inv kj(1,2) obtain trs where
      trs: "provider k (map (\<lambda>r. caps ! r) (batches ! k)) = Inr trs"
           "out ! (batch_start batches k + j)
             = Some (spread (caps ! (batches ! k ! j)) (js_index trs (int j)))"
      by blast
    from trs(2) have "out ! i = Some \<lparr>index = index (caps ! i), startTime = startTime (caps ! i),
                               endTime = endTime (caps ! i), text = js_index trs (int j)\<rparr>"
      by (simp add: ref kj(3)[symmetric] spread_def)
    with kj(1,2,3) ref trs(1) show "\<exists>k j trs.
              k < length batches \<and> j < length (batches ! k) \<and> i = batch_start batches k + j \<and>
              batches ! k ! j = i \<and>
              provider k (map (\<lambda>r. caps ! r) (batches ! k)) = Inr trs \<and>
              out ! i = Some \<lparr>index = index (caps ! i), startTime = startTime (caps ! i),
                               endTime = endTime (caps ! i), text = js_index trs (int j)\<rparr>"
      by blast
  qed
  have uniq: "\<forall>k j k' j'. k < length batches \<and> j < length (batches ! k) \<and>
              k' < length batches \<and> j' < length (batches ! k') \<and>
              batch_start batches k + j = batch_start batches k' + j' \<longrightarrow> k = k' \<and> j = j'"
  proof (intro allI impI)
    fix k j k' j'
    assume "k < length batches \<and> j < length (batches ! k) \<and>
              k' < length batches \<and> j' < length (batches ! k') \<and>
              batch_start batches k + j = batch_start batches k' + j'"
    then show "k = k' \<and> j = j'"
      using batch_position_unique[of k batches j k' j'] by simp
  qed
  from inv have len: "length out = length caps" by simp
  show ?thesis
    unfolding Let_def batches_def[symmetric] by (rule conjI[OF len conjI[OF pos uniq]])
qed

theorem merge_keeps_positions_witness:
  "batchSubtitles (\<lambda>r. five_captions ! r) [0..<length five_captions] 2 50000
     = [[0, 1], [2, 3], [4]] \<and>
   (\<exists>out. translate_merge (\<lambda>r. five_captions ! r) numbering_provider [0..<length five_captions]
             (batchSubtitles (\<lambda>r. five_captions ! r) [0..<length five_captions] 2 50000) = Inr out
        \<and> length out = 5
        \<and> out ! 3 = Some \<lparr>index = Finite 4, startTime = ''00:00:03,000'', endTime = ''00:00:03,900'',
                            text = Some ''B2-2''\<rparr>)"
proof -
  define out where "out =
     map (\<lambda>(i, t). Some \<lparr>index = Finite (int i + 1), startTime = ''00:00:0'' @ string_of_nat i @ '',000'',
               endTime = ''00:00:0'' @ string_of_nat i @ '',900'', text = Some t\<rparr>)
              [(0::nat, ''B1-1''), (1, ''B1-2''), (2, ''B2-1''), (3, ''B2-2''), (4, ''B3-1'')]"
  have b: "batchSubtitles (\<lambda>r. five_captions ! r) [0..<length five_captions] 2 50000
     = [[0, 1], [2, 3], [4]]"
    by code_simp
  have u: "[0..<length five_captions] = [0, 1, 2, 3, 4]" by code_simp
  have len: "length five_captions = 5" by code_simp
  have "translate_merge (\<lambda>r. five_captions ! r) numbering_provider [0, 1, 2, 3, 4]
             [[0, 1], [2, 3], [4]] = Inr out"
    unfolding out_def by code_simp
  then have run: "translate_merge (\<lambda>r. five_captions ! r) numbering_provider [0..<length five_captions]
             (batchSubtitles (\<lambda>r. five_captions ! r) [0..<length five_captions] 2 50000) = Inr out"
    by (simp only: u b[unfolded u])
  have o3: "out ! 3 = Some \<lparr>index = Finite 4, startTime = ''00:00:03,000'', endTime = ''00:00:03,900'',
                            text = Some ''B2-2''\<rparr>"
    unfolding out_def by code_simp
  from merge_keeps_positions[OF run] have "length out = 5"
    unfolding Let_def len by (rule conjunct1)
  with b run o3 show ?thesis by blast
qed

subsection \<open>The index of a parsed caption\<close>

lemma numbered_snoc:
  "numbered subtitles \<Longrightarrow> index s = Finite (int (length subtitles) + 1) \<Longrightarrow>
   numbered (subtitles @ [s])"
  by (auto simp: numbered_def nth_append less_Suc_eq)

lemma parseVTT_loop_step:
  "parseVTT_loop (block # blocks) (idx, subtitles) = parseVTT_loop blocks (idx, subtitles)
   \<or> (\<exists>st et tx. parseVTT_loop (block # blocks) (idx, subtitles) =
         parseVTT_loop blocks (idx + 1, subtitles @
           [\<lparr>index = Finite (idx + 1), startTime = st, endTime = et, text = tx\<rparr>]))"
  by (auto simp: Let_def split: option.splits)

lemma parseVTT_loop_numbered:
  assumes "idx = int (length subtitles)" and "numbered subtitles"
  shows "numbered (snd (parseVTT_loop blocks (idx, subtitles)))"
  using assms
proof (induction blocks arbitrary: idx subtitles)
  case Nil
  then show ?case by simp
next
  case (Cons block blocks)
  from parseVTT_loop_step[of block blocks idx subtitles] show ?case
  proof
    assume "parseVTT_loop (block # blocks) (idx, subtitles) = parseVTT_loop blocks (idx, subtitles)"
    with Cons.IH[OF Cons.prems] show ?thesis by simp
  next
    assume "\<exists>st et tx. parseVTT_loop (block # blocks) (idx, subtitles) =
         parseVTT_loop blocks (idx + 1, subtitles @
           [\<lparr>index = Finite (idx + 1), startTime = st, endTime = et, text = tx\<rparr>])"
    then obtain st et tx where
      eq: "parseVTT_loop (block # blocks) (idx, subtitles) =
         parseVTT_loop blocks (idx + 1, subtitles @
           [\<lparr>index = Finite (idx + 1), startTime = st, endTime = et, text = tx\<rparr>])" by blast
    have ns: "numbered (subtitles @ [\<lparr>index = Finite (idx + 1), startTime = st, endTime = et, text = tx\<rparr>])"
      using Cons.prems by (intro numbered_snoc) simp_all
    have "numbered (snd (parseVTT_loop blocks (idx + 1, subtitles @
           [\<lparr>index = Finite (idx + 1), startTime = st, endTime = et, text = tx\<rparr>])))"
      by (rule Cons.IH[OF _ ns]) (simp add: Cons.prems(1))
    then show ?thesis unfolding eq .
  qed
qed

lemma parseASS_loop_step:
  "\<exists>inEvents' formatFields'.
     parseASS_loop (line # lines) (inEvents, formatFields, idx, subtitles)
       = parseASS_loop lines (inEvents', formatFields', idx, subtitles)
     \<or> (\<exists>st et tx. parseASS_loop (line # lines) (inEvents, formatFields, idx, subtitles) =
         parseASS_loop lines (inEvents', formatFields', idx + 1, subtitles @
           [\<lparr>index = Finite (idx + 1), startTime = st, endTime = et, text = tx\<rparr>]))"
  by (auto simp: Let_def split: option.splits) blast+

lemma parseASS_loop_numbered:
  assumes "idx = int (length subtitles)" and "numbered subtitles"
  shows "numbered (snd (snd (snd (parseASS_loop lines (inEvents, formatFields, idx, subtitles)))))"
  using assms
proof (induction lines arbitrary: inEvents formatFields idx subtitles)
  case Nil
  then show ?case by simp
next
  case (Cons line lines)
  from parseASS_loop_step[of line lines inEvents formatFields idx subtitles]
  obtain inEvents' formatFields' where
    step: "parseASS_loop (line # lines) (inEvents, formatFields, idx, subtitles)
       = parseASS_loop lines (inEvents', formatFields', idx, subtitles)
     \<or> (\<exists>st et tx. parseASS_loop (line # lines) (inEvents, formatFields, idx, subtitles) =
         parseASS_loop lines (inEvents', formatFields', idx + 1, subtitles @
           [\<lparr>index = Finite (idx + 1), startTime = st, endTime = et, text = tx\<rparr>]))" by blast
  then show ?case
  proof
    assume "parseASS_loop (line # lines) (inEvents, formatFields, idx, subtitles)
       = parseASS_loop lines (inEvents', formatFields', idx, subtitles)"
    with Cons.IH[OF Cons.prems] show ?thesis by simp
  next
    assume "\<exists>st et tx. parseASS_loop (line # lines) (inEvents, formatFields, idx, subtitles) =
         parseASS_loop lines (inEvents', formatFields', idx + 1, subtitles @
           [\<lparr>index = Finite (idx + 1), startTime = st, endTime = et, text = tx\<rparr>])"
    then obtain st et tx where
      eq: "parseASS_loop (line # lines) (inEvents, formatFields, idx, subtitles) =
         parseASS_loop lines (inEvents', formatFields', idx + 1, subtitles @
           [\<lparr>index = Finite (idx + 1), startTime = st, endTime = et, text = tx\<rparr>])" by blast
    have ns: "numbered (subtitles @ [\<lparr>index = Finite (idx + 1), startTime = st, endTime = et, text = tx\<rparr>])"
      using Cons.prems by (intro numbered_snoc) simp_all
    have "numbered (snd (snd (snd (parseASS_loop lines (inEvents', formatFields', idx + 1,
           subtitles @ [\<lparr>index = Finite (idx + 1), startTime = st, endTime = et, text = tx\<rparr>])))))"
      by (rule Cons.IH[OF _ ns]) (simp add: Cons.prems(1))
    then show ?thesis unfolding eq .
  qed
qed

lemma parseSRT_loop_step:
  "parseSRT_loop (block # blocks) subtitles = parseSRT_loop blocks subtitles
   \<or> (\<exists>idx st et tx. parseInt (lines_of block ! 0) = Some idx \<and>
        parseSRT_loop (block # blocks) subtitles =
         parseSRT_loop blocks (subtitles @
           [\<lparr>index = idx, startTime = st, endTime = et, text = tx\<rparr>]))"
  by (auto simp: Let_def split: option.splits)

lemma parseSRT_loop_block:
  "(\<forall>blocks subtitles. parseSRT_loop (block # blocks) subtitles = parseSRT_loop blocks subtitles)
   \<or> (\<exists>s. parseInt (lines_of block ! 0) = Some (index s) \<and>
        (\<forall>blocks subtitles.
           parseSRT_loop (block # blocks) subtitles = parseSRT_loop blocks (subtitles @ [s])))"
proof (cases "length (lines_of block) < 3")
  case True
  then show ?thesis by simp
next
  case long: False
  show ?thesis
  proof (cases "parseInt (lines_of block ! 0)")
    case None
    with long show ?thesis by simp
  next
    case (Some idx)
    show ?thesis
    proof (cases "re_search srt_time_re (lines_of block ! 1)")
      case None
      with long Some show ?thesis by simp
    next
      case (Some timeMatch)
      let ?s = "\<lparr>index = idx,
                 startTime = replace_first CHR ''.'' CHR '','' (grp timeMatch 1),
                 endTime = replace_first CHR ''.'' CHR '','' (grp timeMatch 2),
                 text = join [LF] (drop 2 (lines_of block))\<rparr>"
      have "parseInt (lines_of block ! 0) = Some (index ?s)"
        using \<open>parseInt (lines_of block ! 0) = Some idx\<close> by simp
      moreover have "\<forall>blocks subtitles.
           parseSRT_loop (block # blocks) subtitles = parseSRT_loop blocks (subtitles @ [?s])"
        using long Some \<open>parseInt (lines_of block ! 0) = Some idx\<close> by (simp add: Let_def)
      ultimately show ?thesis by blast
    qed
  qed
qed

lemma parseSRT_loop_acc: "parseSRT_loop blocks subtitles = subtitles @ parseSRT_loop blocks []"
proof (induction blocks arbitrary: subtitles)
  case Nil
  then show ?case by simp
next
  case (Cons block blocks)
  from parseSRT_loop_block[of block] show ?case
  proof
    assume skip: "\<forall>blocks subtitles. parseSRT_loop (block # blocks) subtitles = parseSRT_loop blocks subtitles"
    then have "parseSRT_loop (block # blocks) subtitles = parseSRT_loop blocks subtitles"
      and "parseSRT_loop (block # blocks) [] = parseSRT_loop blocks []" by blast+
    with Cons.IH[of subtitles] show ?thesis by simp
  next
    assume "\<exists>s. parseInt (lines_of block ! 0) = Some (index s) \<and>
        (\<forall>blocks subtitles.
           parseSRT_loop (block # blocks) subtitles = parseSRT_loop blocks (subtitles @ [s]))"
    then obtain s where
      eq: "\<And>blocks subtitles.
           parseSRT_loop (block # blocks) subtitles = parseSRT_loop blocks (subtitles @ [s])"
      by blast
    have "parseSRT_loop (block # blocks) subtitles = (subtitles @ [s]) @ parseSRT_loop blocks []"
      unfolding eq by (rule Cons.IH)
    moreover have "parseSRT_loop (block # blocks) [] = ([] @ [s]) @ parseSRT_loop blocks []"
      unfolding eq by (rule Cons.IH)
    ultimately show ?thesis by simp
  qed
qed

lemma parseSRT_loop_Cons:
  "parseSRT_loop (block # blocks) subtitles
     = subtitles @ parseSRT_loop [block] [] @ parseSRT_loop blocks []"
proof -
  from parseSRT_loop_block[of block] show ?thesis
  proof
    assume skip: "\<forall>blocks subtitles. parseSRT_loop (block # blocks) subtitles = parseSRT_loop blocks subtitles"
    then have "parseSRT_loop (block # blocks) subtitles = parseSRT_loop blocks subtitles"
      and "parseSRT_loop [block] [] = parseSRT_loop [] []" by blast+
    with parseSRT_loop_acc[of blocks subtitles] show ?thesis by simp
  next
    assume "\<exists>s. parseInt (lines_of block ! 0) = Some (index s) \<and>
        (\<forall>blocks subtitles.
           parseSRT_loop (block # blocks) subtitles = parseSRT_loop blocks (subtitles @ [s]))"
    then obtain s where
      eq: "\<And>blocks subtitles.
           parseSRT_loop (block # blocks) subtitles = parseSRT_loop blocks (subtitles @ [s])"
      by blast
    have "parseSRT_loop (block # blocks) subtitles = (subtitles @ [s]) @ parseSRT_loop blocks []"
      unfolding eq by (rule parseSRT_loop_acc)
    moreover have "parseSRT_loop [block] [] = [s]"
      unfolding eq by simp
    ultimately show ?thesis by simp
  qed
qed

lemma parseSRT_loop_single:
  "parseSRT_loop [block] [] = []
   \<or> (\<exists>s. parseSRT_loop [block] [] = [s] \<and> parseInt (lines_of block ! 0) = Some (index s))"
proof -
  from parseSRT_loop_block[of block] show ?thesis
  proof
    assume "\<forall>blocks subtitles. parseSRT_loop (block # blocks) subtitles = parseSRT_loop blocks subtitles"
    then have "parseSRT_loop [block] [] = parseSRT_loop [] []" by blast
    then show ?thesis by simp
  next
    assume "\<exists>s. parseInt (lines_of block ! 0) = Some (index s) \<and>
        (\<forall>blocks subtitles.
           parseSRT_loop (block # blocks) subtitles = parseSRT_loop blocks (subtitles @ [s]))"
    then obtain s where p: "parseInt (lines_of block ! 0) = Some (index s)"
      and eq: "\<And>blocks subtitles.
           parseSRT_loop (block # blocks) subtitles = parseSRT_loop blocks (subtitles @ [s])"
      by blast
    have "parseSRT_loop [block] [] = [s]" unfolding eq by simp
    with p show ?thesis by blast
  qed
qed

lemma parseSRT_loop_index:
  "map (\<lambda>s. Some (index s)) (parseSRT_loop blocks [])
     = map (\<lambda>b. parseInt (lines_of b ! 0)) (filter srt_cue blocks)"
proof (induction blocks)
  case Nil
  then show ?case by simp
next
  case (Cons block blocks)
  from parseSRT_loop_single[of block] show ?case
  proof
    assume "parseSRT_loop [block] [] = []"
    with Cons.IH show ?thesis
      unfolding parseSRT_loop_Cons[of block blocks "[]"] by (simp add: srt_cue_def)
  next
    assume "\<exists>s. parseSRT_loop [block] [] = [s] \<and> parseInt (lines_of block ! 0) = Some (index s)"
    then obtain s where "parseSRT_loop [block] [] = [s]" "parseInt (lines_of block ! 0) = Some (index s)"
      by blast
    with Cons.IH show ?thesis
      unfolding parseSRT_loop_Cons[of block blocks "[]"] by (simp add: srt_cue_def)
  qed
qed

text \<open>
  Claim C8 as stated fails for SubRip: the index of a caption is the number read from the
  first line of its block, here 5 for the only caption of the text.
\<close>

theorem parse_index_counterexample:
  "parse (''5'' @ [LF] @ ''00:00:01,000 --> 00:00:02,000'' @ [LF] @ ''Hello'') srt
     = [\<lparr>index = Finite 5, startTime = ''00:00:01,000'', endTime = ''00:00:02,000'', text = ''Hello''\<rparr>]
   \<and> index (parse (''5'' @ [LF] @ ''00:00:01,000 --> 00:00:02,000'' @ [LF] @ ''Hello'') srt ! 0) \<noteq> Finite 1"
  by code_simp

text \<open>
  Claim C8, amended. For WebVTT and Advanced SubStation, every caption that \<^verbatim>\<open>parse\<close>
  returns has its index equal to its position in the returned sequence, counted from 1,
  whatever identifiers the text holds. For SubRip the captions returned are, in order, those
  of the blocks of the text that are read as captions, one for each, and the index of a
  caption is the number that \<^verbatim>\<open>parseInt\<close> reads from the first line of its own block.
\<close>

theorem parse_index:
  "(\<forall>i < length (parse content vtt). index (parse content vtt ! i) = Finite (int i + 1))
   \<and> (\<forall>i < length (parse content ass). index (parse content ass ! i) = Finite (int i + 1))
   \<and> map (\<lambda>s. Some (index s)) (parse content srt)
       = map (\<lambda>block. parseInt (lines_of block ! 0))
           (filter srt_cue (blocks_of (normalizeLineEndings content)))"
proof (intro conjI)
  have "numbered (parseVTT content)"
    unfolding parseVTT_def by (rule parseVTT_loop_numbered) (simp_all add: numbered_def)
  then show "\<forall>i < length (parse content vtt). index (parse content vtt ! i) = Finite (int i + 1)"
    by (simp add: numbered_def)
  have "numbered (snd (snd (snd (parseASS_loop (split_on LF (normalizeLineEndings content))
                                    (False, [], 0, [])))))"
    by (rule parseASS_loop_numbered) (simp_all add: numbered_def)
  moreover have "parseASS content = snd (snd (snd (parseASS_loop
                    (split_on LF (normalizeLineEndings content)) (False, [], 0, []))))"
    by (simp add: parseASS_def split: prod.splits)
  ultimately show "\<forall>i < length (parse content ass). index (parse content ass ! i) = Finite (int i + 1)"
    by (simp add: numbered_def)
  show "map (\<lambda>s. Some (index s)) (parse content srt)
       = map (\<lambda>block. parseInt (lines_of block ! 0))
           (filter srt_cue (blocks_of (normalizeLineEndings content)))"
    by (simp add: parseSRT_def parseSRT_loop_index)
qed

theorem parse_index_witness:
  "parse (''WEBVTT'' @ [LF, LF] @ ''cue-7'' @ [LF] @ ''00:01.000 --> 00:02.000'' @ [LF] @ ''Hi'') vtt
     = [\<lparr>index = Finite 1, startTime = ''00:00:01,000'', endTime = ''00:00:02,000'', text = ''Hi''\<rparr>]
   \<and> index (parse (''WEBVTT'' @ [LF, LF] @ ''cue-7'' @ [LF] @ ''00:01.000 --> 00:02.000'' @ [LF] @ ''Hi'') vtt ! 0) = Finite 1
   \<and> parse (''9'' @ [LF] @ ''00:00:01,000 --> 00:00:02,000'' @ [LF] @ ''Hi'') srt
     = [\<lparr>index = Finite 9, startTime = ''00:00:01,000'', endTime = ''00:00:02,000'', text = ''Hi''\<rparr>]
   \<and> map (\<lambda>block. parseInt (lines_of block ! 0))
         (filter srt_cue (blocks_of (normalizeLineEndings
            (''9'' @ [LF] @ ''00:00:01,000 --> 00:00:02,000'' @ [LF] @ ''Hi''))))
       = [Some (Finite 9)]"
proof -
  have a: "parse (''WEBVTT'' @ [LF, LF] @ ''cue-7'' @ [LF] @ ''00:01.000 --> 00:02.000'' @ [LF] @ ''Hi'') vtt
     = [\<lparr>index = Finite 1, startTime = ''00:00:01,000'', endTime = ''00:00:02,000'', text = ''Hi''\<rparr>]"
    by code_simp
  have b: "parse (''9'' @ [LF] @ ''00:00:01,000 --> 00:00:02,000'' @ [LF] @ ''Hi'') srt
     = [\<lparr>index = Finite 9, startTime = ''00:00:01,000'', endTime = ''00:00:02,000'', text = ''Hi''\<rparr>]"
    by code_simp
  from parse_index[of "''WEBVTT'' @ [LF, LF] @ ''cue-7'' @ [LF] @ ''00:01.000 --> 00:02.000'' @ [LF] @ ''Hi''"]
  have "index (parse (''WEBVTT'' @ [LF, LF] @ ''cue-7'' @ [LF] @ ''00:01.000 --> 00:02.000'' @ [LF] @ ''Hi'') vtt ! 0) = Finite 1"
    unfolding a by simp
  moreover from parse_index[of "''9'' @ [LF] @ ''00:00:01,000 --> 00:00:02,000'' @ [LF] @ ''Hi''"]
  have "map (\<lambda>block. parseInt (lines_of block ! 0))
         (filter srt_cue (blocks_of (normalizeLineEndings
            (''9'' @ [LF] @ ''00:00:01,000 --> 00:00:02,000'' @ [LF] @ ''Hi''))))
       = [Some (Finite 9)]"
    unfolding b by simp
  ultimately show ?thesis using a b by simp
qed

subsection \<open>What a match returns\<close>








inductive_simps matches_Chr [simp]: "matches (Chr c) w"
inductive_simps matches_Cls [simp]: "matches (Cls p) w"
inductive_simps matches_Cat [simp]: "matches (Cat a b) w"
inductive_simps matches_Alt [simp]: "matches (Alt a b) w"
inductive_simps matches_Grp [simp]: "matches (Grp n a) w"
inductive_simps matches_Eps [simp]: "matches Eps w"
inductive_simps matches_Eol [simp]: "matches Eol w"

lemma matches_D [simp]: "matches D w \<longleftrightarrow> (\<exists>c. w = [c] \<and> is_digit c)"
  by (auto simp: D_def)

lemma is_digit_not_sep [simp]:
  "is_digit c \<Longrightarrow> c \<noteq> CHR ''.''" "is_digit c \<Longrightarrow> c \<noteq> CHR '',''" "is_digit c \<Longrightarrow> c \<noteq> CHR '':''"
  by (auto simp: is_digit_def)

lemma is_digit_zero [simp]: "is_digit CHR ''0''"
  by (simp add: is_digit_def)





lemma groups_D [simp]: "groups D = {}"
  by (simp add: D_def)

lemma groups_S [simp]: "groups S = {}"
  by (simp add: S_def)

lemma groups_stamps [simp]: "groups srt_stamp = {}" "groups vtt_stamp = {}"
  by (simp_all add: srt_stamp_def vtt_stamp_def)









subsection \<open>The form of a time\<close>









end
